theory Spec2Isabelle
  imports Complex_Main "HOL-Library.Word" "HOL-Library.Sublist" "HOL-Library.Monad_Syntax"
    "HOL-Library.Log_Nat"
begin

unbundle bit_operations_syntax

section \<open>Data model of howm.c\<close>

text \<open>
  A \<open>Client *\<close> is an address or NULL.  Clients live in a store that maps the
  addresses handed out by \<open>calloc\<close> to their struct; \<open>free\<close> removes the entry.
  A function of the model returns \<open>None\<close> when the C function does not return
  normally: an invalid pointer is dereferenced, a workspace index leaves the array,
  or a list walk never reaches NULL.
\<close>

type_synonym addr = nat
type_synonym ptr = "addr option"

record Client =
  c_next :: ptr
  is_fullscreen :: bool
  is_floating :: bool
  is_transient :: bool
  is_urgent :: bool
  c_win :: "32 word"
  c_x :: "16 word"
  c_y :: "16 word"
  c_w :: "16 word"
  c_h :: "16 word"
  c_gap :: "16 word"

type_synonym store = "addr \<Rightarrow> Client option"

record Workspace =
  layout :: int
  client_cnt :: int
  ws_gap :: "16 word"
  master_ratio :: rat
  bar_height :: "16 word"
  head :: ptr
  prev_foc :: ptr
  current :: ptr

text \<open>\<open>struct stack\<close>: \<open>contents\<close> is written at \<open>++size\<close>, so slot 0 stays unused.\<close>

record stack =
  st_size :: int
  st_contents :: "int \<Rightarrow> ptr"

text \<open>
  The constants and tables of \<open>config.h\<close>, which is not part of the sources at
  hand, are parameters of the model.
\<close>

record Rule =
  r_class :: string
  r_ws :: int
  r_follow :: bool
  r_is_floating :: bool
  r_is_fullscreen :: bool

record config =
  WORKSPACES :: int
  DELETE_REGISTER_SIZE :: int
  BORDER_PX :: "16 word"
  BAR_BOTTOM :: bool
  ZOOM_GAP :: bool
  CENTER_FLOATING :: bool
  FOLLOW_MOVE :: bool
  FLOAT_SPAWN_WIDTH :: "16 word"
  FLOAT_SPAWN_HEIGHT :: "16 word"
  SCRATCHPAD_WIDTH :: "16 word"
  SCRATCHPAD_HEIGHT :: "16 word"
  rules :: "Rule list"

text \<open>The module-level variables that the window model uses.\<close>

record howm =
  wss :: "int \<Rightarrow> Workspace"
  clients :: store
  brk :: addr
  cw :: int
  last_ws :: int
  prev_layout :: int
  scratchpad :: ptr
  del_reg :: stack
  screen_width :: "16 word"
  screen_height :: "16 word"
  screen_root :: "32 word"

abbreviation (input) ZOOM :: int where "ZOOM \<equiv> 0"
abbreviation (input) GRID :: int where "GRID \<equiv> 1"
abbreviation (input) HSTACK :: int where "HSTACK \<equiv> 2"
abbreviation (input) VSTACK :: int where "VSTACK \<equiv> 3"
abbreviation (input) END_LAYOUT :: int where "END_LAYOUT \<equiv> 4"

abbreviation (input) CLIENT :: nat where "CLIENT \<equiv> 0"
abbreviation (input) WORKSPACE :: nat where "WORKSPACE \<equiv> 1"

definition FFT :: "Client \<Rightarrow> bool" where
  "FFT c = (is_transient c \<or> is_floating c \<or> is_fullscreen c)"

text \<open>
  \<open>clist h p xs\<close>: following \<open>next\<close> from \<open>p\<close> visits exactly the addresses
  \<open>xs\<close> and then reaches NULL.
\<close>

fun clist :: "store \<Rightarrow> ptr \<Rightarrow> addr list \<Rightarrow> bool" where
  "clist h p [] = (p = None)"
| "clist h p (a # as) =
     (p = Some a \<and> (case h a of None \<Rightarrow> False | Some c \<Rightarrow> clist h (c_next c) as))"

section \<open>Client-list primitives\<close>

text \<open>The loop of \<open>prev_client\<close>:
  \<^verbatim>\<open>for (p = wss[ws].head; p->next && p->next != c; p = p->next) ;\<close>\<close>

partial_function (option) prev_client_loop :: "store \<Rightarrow> ptr \<Rightarrow> addr \<Rightarrow> addr option" where
  "prev_client_loop h c p =
     (case h p of
        None \<Rightarrow> None
      | Some pc \<Rightarrow>
          (case c_next pc of
             None \<Rightarrow> Some p
           | Some n \<Rightarrow> if Some n \<noteq> c then prev_client_loop h c n else Some p))"

definition prev_client :: "howm \<Rightarrow> ptr \<Rightarrow> int \<Rightarrow> ptr option" where
  "prev_client s c ws =
     (if c = None then Some None
      else case head (wss s ws) of
        None \<Rightarrow> Some None
      | Some hd_a \<Rightarrow>
          (case clients s hd_a of
             None \<Rightarrow> None
           | Some hc \<Rightarrow>
               if c_next hc = None then Some None
               else map_option Some (prev_client_loop (clients s) c hd_a)))"


definition deref :: "howm \<Rightarrow> ptr \<Rightarrow> Client option" where
  "deref s p = (case p of None \<Rightarrow> None | Some a \<Rightarrow> clients s a)"

text \<open>A read through a pointer whose value is used only by the X server.\<close>

definition valid :: "howm \<Rightarrow> ptr \<Rightarrow> unit option" where
  "valid s p = (case deref s p of None \<Rightarrow> None | Some c \<Rightarrow> Some ())"

definition upd_ws :: "int \<Rightarrow> (Workspace \<Rightarrow> Workspace) \<Rightarrow> howm \<Rightarrow> howm" where
  "upd_ws w f s = s\<lparr>wss := (wss s)(w := f (wss s w))\<rparr>"

definition upd_client :: "addr \<Rightarrow> (Client \<Rightarrow> Client) \<Rightarrow> howm \<Rightarrow> howm option" where
  "upd_client a f s =
     (case clients s a of
        None \<Rightarrow> None
      | Some c \<Rightarrow> Some (s\<lparr>clients := (clients s)(a \<mapsto> f c)\<rparr>))"

text \<open>
  \<open>wss\<close> has the entries 0 to \<open>WORKSPACES\<close>.  An index computed from an argument
  is checked against the array; \<open>cw\<close> itself is used as the source uses it.
\<close>

definition ws_idx :: "config \<Rightarrow> int \<Rightarrow> int option" where
  "ws_idx cfg w = (if 0 \<le> w \<and> w \<le> WORKSPACES cfg then Some w else None)"

text \<open>
  Requests to the X server change nothing in the model, but the loops that send them
  walk a client list and have to reach its end:
  \<^verbatim>\<open>for (c = head; c; c = c->next) ...\<close>\<close>

partial_function (option) walk :: "store \<Rightarrow> ptr \<Rightarrow> nat \<Rightarrow> nat option" where
  "walk h p n =
     (case p of
        None \<Rightarrow> Some n
      | Some a \<Rightarrow> (case h a of None \<Rightarrow> None | Some c \<Rightarrow> walk h (c_next c) (Suc n)))"

definition next_client :: "howm \<Rightarrow> ptr \<Rightarrow> ptr option" where
  "next_client s c =
     (case c of
        None \<Rightarrow> Some None
      | Some a \<Rightarrow>
          (case head (wss s (cw s)) of
             None \<Rightarrow> Some None
           | Some hd_a \<Rightarrow> do {
               hc \<leftarrow> clients s hd_a;
               if c_next hc = None then Some None
               else do {
                 ac \<leftarrow> clients s a;
                 if c_next ac \<noteq> None then Some (c_next ac) else Some (Some hd_a)
               }
             }))"

text \<open>\<open>find_client_by_win\<close>: the inner loop over one list, the outer one over
  the workspaces 1 to \<open>WORKSPACES\<close>.\<close>

partial_function (option) find_in_list :: "store \<Rightarrow> 32 word \<Rightarrow> ptr \<Rightarrow> ptr option" where
  "find_in_list h win p =
     (case p of
        None \<Rightarrow> Some None
      | Some a \<Rightarrow>
          (case h a of
             None \<Rightarrow> None
           | Some c \<Rightarrow> if win = c_win c then Some (Some a) else find_in_list h win (c_next c)))"

fun find_in_wss :: "howm \<Rightarrow> 32 word \<Rightarrow> int list \<Rightarrow> ptr option" where
  "find_in_wss s win [] = Some None"
| "find_in_wss s win (w # ws) =
     (case find_in_list (clients s) win (head (wss s w)) of
        None \<Rightarrow> None
      | Some None \<Rightarrow> find_in_wss s win ws
      | Some (Some a) \<Rightarrow> Some (Some a))"

definition find_client_by_win :: "config \<Rightarrow> howm \<Rightarrow> 32 word \<Rightarrow> ptr option" where
  "find_client_by_win cfg s win = find_in_wss s win [1 .. WORKSPACES cfg]"

section \<open>Layouts\<close>

definition change_client_geom ::
  "Client \<Rightarrow> 16 word \<Rightarrow> 16 word \<Rightarrow> 16 word \<Rightarrow> 16 word \<Rightarrow> Client" where
  "change_client_geom c x y w h = c\<lparr>c_x := x, c_y := y, c_w := w, c_h := h\<rparr>"

partial_function (option) non_tff_count_loop :: "store \<Rightarrow> ptr \<Rightarrow> int \<Rightarrow> int option" where
  "non_tff_count_loop h p n =
     (case p of
        None \<Rightarrow> Some n
      | Some a \<Rightarrow>
          (case h a of
             None \<Rightarrow> None
           | Some c \<Rightarrow> non_tff_count_loop h (c_next c) (if \<not> FFT c then n + 1 else n)))"

definition get_non_tff_count :: "howm \<Rightarrow> int option" where
  "get_non_tff_count s = non_tff_count_loop (clients s) (head (wss s (cw s))) 0"

partial_function (option) first_non_tff_loop :: "store \<Rightarrow> ptr \<Rightarrow> ptr option" where
  "first_non_tff_loop h p =
     (case p of
        None \<Rightarrow> Some None
      | Some a \<Rightarrow>
          (case h a of
             None \<Rightarrow> None
           | Some c \<Rightarrow> if FFT c then first_non_tff_loop h (c_next c) else Some (Some a)))"

definition get_first_non_tff :: "howm \<Rightarrow> ptr option" where
  "get_first_non_tff s = first_non_tff_loop (clients s) (head (wss s (cw s)))"

text \<open>\<open>draw_clients\<close> only configures windows; it walks the current list.\<close>

definition draw_clients :: "howm \<Rightarrow> howm option" where
  "draw_clients s = do { _ \<leftarrow> walk (clients s) (head (wss s (cw s))) 0; Some s }"

partial_function (option) zoom_loop ::
  "16 word \<Rightarrow> 16 word \<Rightarrow> 16 word \<Rightarrow> store \<Rightarrow> ptr \<Rightarrow> store option" where
  "zoom_loop y w ht h p =
     (case p of
        None \<Rightarrow> Some h
      | Some a \<Rightarrow>
          (case h a of
             None \<Rightarrow> None
           | Some c \<Rightarrow>
               zoom_loop y w ht
                 (if \<not> FFT c then h(a \<mapsto> change_client_geom c 0 y w ht) else h)
                 (c_next c)))"

definition zoom :: "config \<Rightarrow> howm \<Rightarrow> howm option" where
  "zoom cfg s = do {
     let ws = wss s (cw s);
     _ \<leftarrow> (if layout ws \<noteq> ZOOM then valid s (head ws) else Some ());
     h' \<leftarrow> zoom_loop (if BAR_BOTTOM cfg then 0 else bar_height ws) (screen_width s)
             (screen_height s - bar_height ws) (clients s) (head ws);
     draw_clients (s\<lparr>clients := h'\<rparr>)
   }"


text \<open>\<open>grid\<close>: the search for the column count,
  \<^verbatim>\<open>for (cols = 0; cols <= n / 2; cols++) if (cols * cols >= n) break;\<close>\<close>

function grid_cols :: "int \<Rightarrow> int \<Rightarrow> int" where
  "grid_cols n cols =
     (if cols \<le> n div 2 then (if cols * cols \<ge> n then cols else grid_cols n (cols + 1))
      else cols)"
  by pat_completeness auto
termination
  by (relation "measure (\<lambda>(n, cols). nat (n div 2 + 1 - cols))") auto

declare grid_cols.simps [simp del]

partial_function (option) grid_loop ::
  "int \<Rightarrow> int \<Rightarrow> 16 word \<Rightarrow> 16 word \<Rightarrow> 16 word \<Rightarrow> store \<Rightarrow> ptr \<Rightarrow>
   int \<Rightarrow> int \<Rightarrow> int \<Rightarrow> int \<Rightarrow> store option" where
  "grid_loop n cols col_w client_y col_h h p i rows row_cnt col_cnt =
     (case p of
        None \<Rightarrow> Some h
      | Some a \<Rightarrow>
          (case h a of
             None \<Rightarrow> None
           | Some c \<Rightarrow>
               if FFT c then grid_loop n cols col_w client_y col_h h (c_next c) i rows row_cnt col_cnt
               else if rows = 0 then None
               else
                 let i' = i + 1;
                     rows' = (if cols - (n mod cols) < (i' div rows) + 1 then n div cols + 1
                              else rows)
                 in if rows' = 0 then None
                    else
                      let h' = h(a \<mapsto> change_client_geom c
                                 (word_of_int (col_cnt * uint col_w))
                                 (word_of_int (uint client_y + (row_cnt * uint col_h) div rows'))
                                 col_w
                                 (word_of_int (uint col_h div rows')))
                      in if row_cnt + 1 \<ge> rows'
                         then grid_loop n cols col_w client_y col_h h' (c_next c) i' rows' 0 (col_cnt + 1)
                         else grid_loop n cols col_w client_y col_h h' (c_next c) i' rows'
                                (row_cnt + 1) col_cnt))"

definition grid :: "config \<Rightarrow> howm \<Rightarrow> howm option" where
  "grid cfg s = do {
     n \<leftarrow> get_non_tff_count s;
     let ws = wss s (cw s);
     let client_y = (if BAR_BOTTOM cfg then 0 else bar_height ws);
     let col_h = screen_height s - bar_height ws;
     if n \<le> 1 then zoom cfg s
     else do {
       let cols = grid_cols n 0;
       if cols = 0 then None
       else do {
         let rows = n div cols;
         let col_w = (word_of_int (uint (screen_width s) div cols) :: 16 word);
         h' \<leftarrow> grid_loop n cols col_w client_y col_h (clients s) (head ws) (- 1) rows 0 0;
         draw_clients (s\<lparr>clients := h'\<rparr>)
       }
     }
   }"

text \<open>
  \<open>stack\<close> computes \<^verbatim>\<open>uint16_t ms = (vert ? w : h) * wss[cw].master_ratio\<close>.
  The left operand is promoted to \<open>int\<close> and converted to \<open>float\<close>, which is exact
  below \<open>2^24\<close>; the product is taken in binary32 and rounded to the nearest
  value, ties to the even significand; the conversion to \<open>uint16_t\<close> drops the
  fraction and is undefined when the integer part is not in 0 to 65535.

  \<open>master_ratio\<close> holds the value of the \<open>float\<close> as a rational.  \<open>ilog2 q\<close> is
  the exponent of a positive \<open>q\<close>, the integer part of its binary logarithm;
  \<open>f32_round\<close> rounds to 24 significant bits, or to a multiple of \<open>2^-149\<close>
  below the normal range.  A product too large for binary32 is far beyond 65535,
  where the conversion has no result anyway.
\<close>

definition ilog2 :: "rat \<Rightarrow> int" where
  "ilog2 q = (if 1 \<le> q then int (floorlog 2 (nat \<lfloor>q\<rfloor>)) - 1
              else - int (floorlog 2 (nat (\<lceil>1 / q\<rceil> - 1))))"

definition pow2 :: "int \<Rightarrow> rat" where
  "pow2 k = (if 0 \<le> k then 2 ^ nat k else 1 / 2 ^ nat (- k))"

definition round_even :: "rat \<Rightarrow> int" where
  "round_even x =
     (let f = \<lfloor>x\<rfloor>; d = x - of_int f
      in if d < 1 / 2 then f else if 1 / 2 < d then f + 1 else if even f then f else f + 1)"

definition f32_round :: "rat \<Rightarrow> rat" where
  "f32_round q =
     (if q = 0 then 0
      else let ulp = pow2 (max (ilog2 \<bar>q\<bar>) (- 126) - 23)
           in sgn q * of_int (round_even (\<bar>q\<bar> / ulp)) * ulp)"

definition f32_to_u16 :: "rat \<Rightarrow> 16 word option" where
  "f32_to_u16 v =
     (let t = (if 0 \<le> v then \<lfloor>v\<rfloor> else \<lceil>v\<rceil>)
      in if 0 \<le> t \<and> t < 65536 then Some (word_of_int t) else None)"

partial_function (option) stack_loop ::
  "bool \<Rightarrow> 16 word \<Rightarrow> 16 word \<Rightarrow> 16 word \<Rightarrow> 16 word \<Rightarrow> 16 word \<Rightarrow> store \<Rightarrow> ptr \<Rightarrow>
   16 word \<Rightarrow> 16 word \<Rightarrow> store option" where
  "stack_loop vert ms client_span sw sh bh h p client_x client_y =
     (case p of
        None \<Rightarrow> Some h
      | Some a \<Rightarrow>
          (case h a of
             None \<Rightarrow> None
           | Some c \<Rightarrow>
               if FFT c then stack_loop vert ms client_span sw sh bh h (c_next c) client_x client_y
               else if vert then
                 stack_loop vert ms client_span sw sh bh
                   (h(a \<mapsto> change_client_geom c ms client_y (sw - ms) client_span))
                   (c_next c) client_x (client_y + client_span)
               else
                 stack_loop vert ms client_span sw sh bh
                   (h(a \<mapsto> change_client_geom c client_x ms client_span (sh - bh - ms)))
                   (c_next c) (client_x + client_span) client_y))"

definition stack :: "config \<Rightarrow> howm \<Rightarrow> howm option" where
  "stack cfg s = do {
     c \<leftarrow> get_first_non_tff s;
     let ws = wss s (cw s);
     let vert = (layout ws = VSTACK);
     let h = screen_height s - bar_height ws;
     let w = screen_width s;
     n \<leftarrow> get_non_tff_count s;
     let client_y = (if BAR_BOTTOM cfg then 0 else bar_height ws);
     ms \<leftarrow> f32_to_u16 (f32_round (of_int (uint (if vert then w else h)) * master_ratio ws));
     let span = (if vert then h else w);
     if n \<le> 1 then zoom cfg s
     else do {
       let client_span = (word_of_int (uint span div (n - 1)) :: 16 word);
       a \<leftarrow> c;
       s1 \<leftarrow> upd_client a (\<lambda>cl. if vert then change_client_geom cl 0 client_y ms span
                               else change_client_geom cl 0 (if BAR_BOTTOM cfg then 0 else bar_height ws)
                                      span ms) s;
       cl \<leftarrow> clients s1 a;
       h' \<leftarrow> stack_loop vert ms client_span (screen_width s) (screen_height s) (bar_height ws)
               (clients s1) (c_next cl) 0 client_y;
       draw_clients (s1\<lparr>clients := h'\<rparr>)
     }
   }"

text \<open>\<open>arrange_windows\<close> calls \<open>layout_handler[head->next ? layout : ZOOM]\<close>, a table
  of four entries.\<close>

definition arrange_windows :: "config \<Rightarrow> howm \<Rightarrow> howm option" where
  "arrange_windows cfg s =
     (case head (wss s (cw s)) of
        None \<Rightarrow> Some s
      | Some hd_a \<Rightarrow> do {
          hc \<leftarrow> clients s hd_a;
          let l = (if c_next hc \<noteq> None then layout (wss s (cw s)) else ZOOM);
          if l = GRID then grid cfg s
          else if l = ZOOM then zoom cfg s
          else if l = HSTACK \<or> l = VSTACK then stack cfg s
          else None
        })"

section \<open>Focus and workspaces\<close>

definition update_focused_client :: "config \<Rightarrow> ptr \<Rightarrow> howm \<Rightarrow> howm option" where
  "update_focused_client cfg c s =
     (if c = None then Some s
      else if head (wss s (cw s)) = None then
        Some (upd_ws (cw s) (\<lambda>w. w\<lparr>prev_foc := None, current := None\<rparr>) s)
      else do {
        s1 \<leftarrow> (if c = prev_foc (wss s (cw s)) then do {
                  let s' = upd_ws (cw s) (\<lambda>w. w\<lparr>current := prev_foc w\<rparr>) s;
                  p \<leftarrow> prev_client s' (current (wss s' (cw s'))) (cw s');
                  Some (upd_ws (cw s') (\<lambda>w. w\<lparr>prev_foc := p\<rparr>) s')
                }
                else if c \<noteq> current (wss s (cw s)) then
                  Some (upd_ws (cw s) (\<lambda>w. w\<lparr>prev_foc := current w, current := c\<rparr>) s)
                else Some s);
        _ \<leftarrow> walk (clients s1) (head (wss s1 (cw s1))) 0;
        _ \<leftarrow> valid s1 (current (wss s1 (cw s1)));
        arrange_windows cfg s1
      })"

text \<open>
  \<open>change_ws\<close> starts with \<^verbatim>\<open>Client *c = wss[arg->i].head;\<close> and tests the range
  of \<open>arg->i\<close> in the next statement, so the array is read at \<open>arg->i\<close> whatever
  the index is.
\<close>

definition change_ws :: "config \<Rightarrow> int \<Rightarrow> howm \<Rightarrow> howm option" where
  "change_ws cfg i s = do {
     w \<leftarrow> ws_idx cfg i;
     let c = head (wss s w);
     if i > WORKSPACES cfg \<or> i \<le> 0 \<or> i = cw s then Some s
     else do {
       let s1 = s\<lparr>last_ws := cw s\<rparr>;
       _ \<leftarrow> walk (clients s1) c 0;
       _ \<leftarrow> walk (clients s1) (head (wss s1 (last_ws s1))) 0;
       let s2 = s1\<lparr>cw := i\<rparr>;
       update_focused_client cfg (current (wss s2 (cw s2))) s2
     }
   }"

definition correct_ws :: "config \<Rightarrow> int \<Rightarrow> int" where
  "correct_ws cfg ws =
     (if ws > WORKSPACES cfg then ws - WORKSPACES cfg
      else if ws < 1 then ws + WORKSPACES cfg
      else ws)"


section \<open>Creating, moving and removing clients\<close>

definition zero_client :: Client where
  "zero_client = \<lparr>c_next = None, is_fullscreen = False, is_floating = False,
     is_transient = False, is_urgent = False, c_win = 0, c_x = 0, c_y = 0, c_w = 0,
     c_h = 0, c_gap = 0\<rparr>"

text \<open>\<open>create_client\<close>: \<open>calloc\<close> hands out the fresh address \<open>brk\<close> (the case
  that it fails and howm exits is left out).  The result is the new client.\<close>

definition create_client :: "config \<Rightarrow> 32 word \<Rightarrow> howm \<Rightarrow> (addr \<times> howm) option" where
  "create_client cfg w s = do {
     let c = brk s;
     let s0 = s\<lparr>clients := (clients s)(c \<mapsto> zero_client), brk := Suc (brk s)\<rparr>;
     t \<leftarrow> prev_client s0 (head (wss s0 (cw s0))) (cw s0);
     s1 \<leftarrow> (case head (wss s0 (cw s0)) of
              None \<Rightarrow> Some (upd_ws (cw s0) (\<lambda>x. x\<lparr>head := Some c\<rparr>) s0)
            | Some hd_a \<Rightarrow>
                (case t of
                   Some ta \<Rightarrow> upd_client ta (\<lambda>x. x\<lparr>c_next := Some c\<rparr>) s0
                 | None \<Rightarrow> upd_client hd_a (\<lambda>x. x\<lparr>c_next := Some c\<rparr>) s0));
     s2 \<leftarrow> upd_client c (\<lambda>x. x\<lparr>c_win := w, c_gap := ws_gap (wss s1 (cw s1))\<rparr>) s1;
     Some (c, upd_ws (cw s2) (\<lambda>x. x\<lparr>client_cnt := client_cnt x + 1\<rparr>) s2)
   }"

definition client_to_ws :: "config \<Rightarrow> ptr \<Rightarrow> int \<Rightarrow> bool \<Rightarrow> howm \<Rightarrow> howm option" where
  "client_to_ws cfg c ws follow s = do {
     prev \<leftarrow> prev_client s c (cw s);
     (case c of
        None \<Rightarrow> Some s
      | Some a \<Rightarrow>
          if ws = cw s then Some s
          else do {
            ws \<leftarrow> ws_idx cfg ws;
            last \<leftarrow> prev_client s (head (wss s ws)) ws;
            s1 \<leftarrow> (case head (wss s ws) of
                     None \<Rightarrow> Some (upd_ws ws (\<lambda>x. x\<lparr>head := c\<rparr>) s)
                   | Some hd_a \<Rightarrow>
                       (case last of
                          Some la \<Rightarrow> upd_client la (\<lambda>x. x\<lparr>c_next := c\<rparr>) s
                        | None \<Rightarrow> upd_client hd_a (\<lambda>x. x\<lparr>c_next := c\<rparr>) s));
            let s2 = upd_ws ws (\<lambda>x. x\<lparr>current := c, client_cnt := client_cnt x + 1\<rparr>) s1;
            ac \<leftarrow> clients s2 a;
            s3 \<leftarrow> (if c = head (wss s2 (cw s2)) \<or> prev = None
                   then Some (upd_ws (cw s2) (\<lambda>x. x\<lparr>head := c_next ac\<rparr>) s2)
                   else do { pa \<leftarrow> prev; upd_client pa (\<lambda>x. x\<lparr>c_next := c_next ac\<rparr>) s2 });
            let s4 = upd_ws (cw s3) (\<lambda>x. x\<lparr>current := prev, client_cnt := client_cnt x - 1\<rparr>) s3;
            s5 \<leftarrow> upd_client a (\<lambda>x. x\<lparr>c_next := None\<rparr>) s4;
            if follow then change_ws cfg ws (upd_ws ws (\<lambda>x. x\<lparr>current := c\<rparr>) s5)
            else update_focused_client cfg prev s5
          })
   }"

text \<open>\<open>remove_client\<close> looks for the place that points to \<open>c\<close>: the \<open>head\<close> of a
  workspace or the \<open>next\<close> field of a client.\<close>

datatype loc = Head_of int | Next_of addr

partial_function (option) find_loc :: "store \<Rightarrow> ptr \<Rightarrow> ptr \<Rightarrow> loc \<Rightarrow> loc option option" where
  "find_loc h c p temp =
     (case p of
        None \<Rightarrow> Some None
      | Some a \<Rightarrow>
          if Some a = c then Some (Some temp)
          else (case h a of None \<Rightarrow> None | Some ac \<Rightarrow> find_loc h c (c_next ac) (Next_of a)))"

fun find_loc_wss :: "howm \<Rightarrow> ptr \<Rightarrow> int list \<Rightarrow> (int \<times> loc) option option" where
  "find_loc_wss s c [] = Some None"
| "find_loc_wss s c (w # ws) =
     (case find_loc (clients s) c (head (wss s w)) (Head_of w) of
        None \<Rightarrow> None
      | Some None \<Rightarrow> find_loc_wss s c ws
      | Some (Some temp) \<Rightarrow> Some (Some (w, temp)))"

definition set_loc :: "loc \<Rightarrow> ptr \<Rightarrow> howm \<Rightarrow> howm option" where
  "set_loc temp v s =
     (case temp of
        Head_of w \<Rightarrow> Some (upd_ws w (\<lambda>x. x\<lparr>head := v\<rparr>) s)
      | Next_of a \<Rightarrow> upd_client a (\<lambda>x. x\<lparr>c_next := v\<rparr>) s)"

definition remove_client :: "config \<Rightarrow> ptr \<Rightarrow> bool \<Rightarrow> howm \<Rightarrow> howm option" where
  "remove_client cfg c refocus s = do {
     found \<leftarrow> find_loc_wss s c [1 .. WORKSPACES cfg];
     (case found of
        None \<Rightarrow> Some s
      | Some (w, temp) \<Rightarrow> do {
          cc \<leftarrow> deref s c;
          s1 \<leftarrow> set_loc temp (c_next cc) s;
          s2 \<leftarrow> (if c = prev_foc (wss s1 w) then do {
                    p \<leftarrow> prev_client s1 (current (wss s1 w)) w;
                    Some (upd_ws w (\<lambda>x. x\<lparr>prev_foc := p\<rparr>) s1)
                  } else Some s1);
          b \<leftarrow> (if c = current (wss s2 w) then Some True
                else do { hc \<leftarrow> deref s2 (head (wss s2 w)); Some (c_next hc = None) });
          s3 \<leftarrow> (if b then do {
                    let s' = upd_ws w (\<lambda>x. x\<lparr>current := (if prev_foc x \<noteq> None then prev_foc x
                                                         else head x)\<rparr>) s2;
                    if refocus then update_focused_client cfg (current (wss s' w)) s'
                    else Some s'
                  } else Some s2);
          a \<leftarrow> c;
          Some (upd_ws w (\<lambda>x. x\<lparr>client_cnt := client_cnt x - 1\<rparr>)
                  (s3\<lparr>clients := (clients s3)(a := None)\<rparr>))
        })
   }"


section \<open>Event handlers\<close>

text \<open>
  What the X server answers during a map request is part of the event in the model:
  the window attributes (\<open>None\<close> when there is no reply, else
  \<open>override_redirect\<close>), the atoms of \<open>_NET_WM_WINDOW_TYPE\<close> when that reply
  arrives, the transient-for window (0 when unset), the geometry and \<open>WM_CLASS\<close>.
\<close>

datatype wtype = DOCK | TOOLBAR | NOTIFICATION | DROPDOWN_MENU | SPLASH | POPUP_MENU
  | TOOLTIP | DIALOG | OTHER_TYPE nat

record geom =
  g_x :: "16 word"
  g_y :: "16 word"
  g_width :: "16 word"
  g_height :: "16 word"

record map_request =
  me_window :: "32 word"
  wa_override_redirect :: "bool option"
  window_type :: "wtype list option"
  transient_for :: "32 word"
  geometry :: "geom option"
  wm_class :: "(string \<times> string) option"

text \<open>C division of \<open>int\<close> truncates towards zero.\<close>

definition c_div :: "int \<Rightarrow> int \<Rightarrow> int" where
  "c_div a b = sgn a * sgn b * (\<bar>a\<bar> div \<bar>b\<bar>)"

text \<open>The loop over the type atoms; \<open>True\<close> in the result says that the handler
  returned from inside the loop.\<close>

fun window_type_loop :: "wtype list \<Rightarrow> addr \<Rightarrow> howm \<Rightarrow> (bool \<times> howm) option" where
  "window_type_loop [] c s = Some (False, s)"
| "window_type_loop (a # as) c s =
     (if a = DOCK \<or> a = TOOLBAR then Some (True, s)
      else if a = NOTIFICATION \<or> a = DROPDOWN_MENU \<or> a = SPLASH \<or> a = POPUP_MENU
              \<or> a = TOOLTIP \<or> a = DIALOG
      then do { s' \<leftarrow> upd_client c (\<lambda>x. x\<lparr>is_floating := True\<rparr>) s; window_type_loop as c s' }
      else window_type_loop as c s)"

fun apply_rules_loop :: "config \<Rightarrow> addr \<Rightarrow> string \<Rightarrow> string \<Rightarrow> Rule list \<Rightarrow> howm \<Rightarrow> howm option" where
  "apply_rules_loop cfg c inst cls [] s = Some s"
| "apply_rules_loop cfg c inst cls (r # rs) s =
     (if sublist (r_class r) inst \<or> sublist (r_class r) cls then do {
        s1 \<leftarrow> upd_client c (\<lambda>x. x\<lparr>is_floating := r_is_floating r,
                                    is_fullscreen := r_is_fullscreen r\<rparr>) s;
        client_to_ws cfg (Some c) (if r_ws r = 0 then cw s1 else r_ws r) (r_follow r) s1
      }
      else apply_rules_loop cfg c inst cls rs s)"

definition apply_rules :: "config \<Rightarrow> (string \<times> string) option \<Rightarrow> addr \<Rightarrow> howm \<Rightarrow> howm option" where
  "apply_rules cfg wc c s =
     (case wc of
        None \<Rightarrow> Some s
      | Some (inst, cls) \<Rightarrow> apply_rules_loop cfg c inst cls (rules cfg) s)"

definition map_event :: "config \<Rightarrow> map_request \<Rightarrow> howm \<Rightarrow> howm option" where
  "map_event cfg me s =
     (case wa_override_redirect me of
        None \<Rightarrow> Some s
      | Some redirect \<Rightarrow>
          if redirect then Some s
          else do {
            known \<leftarrow> find_client_by_win cfg s (me_window me);
            if known \<noteq> None then Some s
            else do {
              (c, s1) \<leftarrow> create_client cfg (me_window me) s;
              (returned, s2) \<leftarrow> (case window_type me of
                                   None \<Rightarrow> Some (False, s1)
                                 | Some atoms \<Rightarrow> window_type_loop atoms c s1);
              if returned then Some s2
              else do {
                s3 \<leftarrow> upd_client c (\<lambda>x. x\<lparr>is_transient := (transient_for me \<noteq> 0)\<rparr>) s2;
                s4 \<leftarrow> upd_client c (\<lambda>x. if is_transient x then x\<lparr>is_floating := True\<rparr> else x) s3;
                cl \<leftarrow> clients s4 c;
                s5 \<leftarrow> (case geometry me of
                         None \<Rightarrow> Some s4
                       | Some g \<Rightarrow>
                           if is_floating cl then
                             upd_client c (\<lambda>x.
                               let w = (if 1 < g_width g then g_width g else FLOAT_SPAWN_WIDTH cfg);
                                   h = (if 1 < g_height g then g_height g else FLOAT_SPAWN_HEIGHT cfg)
                               in x\<lparr>c_w := w, c_h := h,
                                     c_x := (if CENTER_FLOATING cfg
                                             then word_of_int (uint (screen_width s4) div 2 - uint w div 2)
                                             else g_x g),
                                     c_y := (if CENTER_FLOATING cfg
                                             then word_of_int
                                               (c_div (uint (screen_height s4)
                                                 - uint (bar_height (wss s4 (cw s4))) - uint h) 2)
                                             else g_y g)\<rparr>) s4
                           else Some s4);
                s6 \<leftarrow> apply_rules cfg (wm_class me) c s5;
                s7 \<leftarrow> arrange_windows cfg s6;
                _ \<leftarrow> clients s7 c;
                update_focused_client cfg (Some c) s7
              }
            }
          })"

record window_event =
  ev_window :: "32 word"
  ev_event :: "32 word"

definition destroy_event :: "config \<Rightarrow> window_event \<Rightarrow> howm \<Rightarrow> howm option" where
  "destroy_event cfg de s = do {
     c \<leftarrow> find_client_by_win cfg s (ev_window de);
     if c = None then Some s
     else do { s1 \<leftarrow> remove_client cfg c True s; arrange_windows cfg s1 }
   }"

text \<open>
  \<open>unmap_event\<close>.  Its guard is \<^verbatim>\<open>!ue->event == screen->root\<close>: the negation
  applies to \<open>ue->event\<close> alone and yields the \<open>int\<close> 1 or 0, which is then
  compared with the root window.
\<close>

definition unmap_event :: "config \<Rightarrow> window_event \<Rightarrow> howm \<Rightarrow> howm option" where
  "unmap_event cfg ue s = do {
     c \<leftarrow> find_client_by_win cfg s (ev_window ue);
     if c = None then Some s
     else if (if ev_event ue = 0 then 1 else 0) = screen_root s
       then do { s1 \<leftarrow> remove_client cfg c True s; arrange_windows cfg s1 }
       else Some s
   }"

section \<open>The delete register\<close>

definition stack_push :: "config \<Rightarrow> ptr \<Rightarrow> stack \<Rightarrow> stack" where
  "stack_push cfg c st =
     (if c = None then st
      else if st_size st \<ge> DELETE_REGISTER_SIZE cfg then st
      else st\<lparr>st_size := st_size st + 1,
              st_contents := (st_contents st)(st_size st + 1 := c)\<rparr>)"

definition stack_pop :: "stack \<Rightarrow> ptr \<times> stack" where
  "stack_pop st =
     (if st_size st = 0 then (None, st)
      else (st_contents st (st_size st), st\<lparr>st_size := st_size st - 1\<rparr>))"

text \<open>The loop of \<open>op_cut\<close> over workspaces.  The count is decremented before
  \<open>client_cnt\<close> is cleared, as in the source.\<close>

function op_cut_ws_loop :: "config \<Rightarrow> int \<Rightarrow> howm \<Rightarrow> howm option" where
  "op_cut_ws_loop cfg cnt s =
     (if cnt > 0 then
        (case ws_idx cfg (correct_ws cfg (cw s + cnt - 1)) of
           None \<Rightarrow> None
         | Some w \<Rightarrow>
            (case walk (clients s) (head (wss s w)) 0 of
               None \<Rightarrow> None
             | Some _ \<Rightarrow>
                (let s1 = s\<lparr>del_reg := stack_push cfg (head (wss s w)) (del_reg s)\<rparr>;
                     s2 = upd_ws w (\<lambda>x. x\<lparr>head := None, prev_foc := None, current := None\<rparr>) s1
                 in case ws_idx cfg (correct_ws cfg (cw s2 + (cnt - 1) - 1)) of
                      None \<Rightarrow> None
                    | Some w' \<Rightarrow>
                        op_cut_ws_loop cfg (cnt - 1) (upd_ws w' (\<lambda>x. x\<lparr>client_cnt := 0\<rparr>) s2))))
      else Some s)"
  by pat_completeness auto
termination
  by (relation "measure (\<lambda>(cfg, cnt, s). nat cnt)") auto

declare op_cut_ws_loop.simps [simp del]


text \<open>The loop of \<open>op_cut\<close> over the clients after \<open>current\<close>; it yields the
  final \<open>tail\<close> and \<open>wrap\<close>.\<close>

function op_cut_client_loop :: "int \<Rightarrow> addr \<Rightarrow> bool \<Rightarrow> howm \<Rightarrow> (addr \<times> bool \<times> howm) option" where
  "op_cut_client_loop cnt tail wrap s =
     (if cnt > 1 then
        (case (do {
                 tc \<leftarrow> clients s tail;
                 (wrap1, s1) \<leftarrow>
                   (if c_next tc = None then do {
                      nt \<leftarrow> next_client s (Some tail);
                      if nt \<noteq> None then do {
                        s' \<leftarrow> upd_client tail (\<lambda>x. x\<lparr>c_next := nt\<rparr>) s;
                        Some (True, s')
                      } else Some (wrap, s)
                    } else Some (wrap, s));
                 let s2 = (if Some tail = prev_foc (wss s1 (cw s1))
                           then upd_ws (cw s1) (\<lambda>x. x\<lparr>prev_foc := None\<rparr>) s1 else s1);
                 t' \<leftarrow> next_client s2 (Some tail);
                 tail' \<leftarrow> t';
                 _ \<leftarrow> clients s2 tail';
                 Some (tail', wrap1,
                       upd_ws (cw s2) (\<lambda>x. x\<lparr>client_cnt := client_cnt x - 1\<rparr>) s2)
               }) of
           None \<Rightarrow> None
         | Some (tail', wrap1, s3) \<Rightarrow> op_cut_client_loop (cnt - 1) tail' wrap1 s3)
      else Some (tail, wrap, s))"
  by pat_completeness auto
termination
  by (relation "measure (\<lambda>(cnt, tail, wrap, s). nat cnt)") auto

declare op_cut_client_loop.simps [simp del]

definition op_cut :: "config \<Rightarrow> nat \<Rightarrow> int \<Rightarrow> howm \<Rightarrow> howm option" where
  "op_cut cfg type cnt s = do {
     head_prev \<leftarrow> prev_client s (current (wss s (cw s))) (cw s);
     (case current (wss s (cw s)) of
        None \<Rightarrow> Some s
      | Some hd_a \<Rightarrow>
          if st_size (del_reg s) \<ge> DELETE_REGISTER_SIZE cfg then Some s
          else if (type = CLIENT \<and> cnt \<ge> client_cnt (wss s (cw s))) \<or> type = WORKSPACE then
            (if cnt + st_size (del_reg s) > DELETE_REGISTER_SIZE cfg then Some s
             else op_cut_ws_loop cfg cnt s)
          else if type = CLIENT then do {
            _ \<leftarrow> clients s hd_a;
            let s1 = upd_ws (cw s) (\<lambda>x. x\<lparr>client_cnt := client_cnt x - 1\<rparr>) s;
            (tail, wrap, s2) \<leftarrow> op_cut_client_loop cnt hd_a False s1;
            s3 \<leftarrow> (if Some hd_a = head (wss s2 (cw s2)) then do {
                      n \<leftarrow> next_client s2 (Some tail);
                      Some (upd_ws (cw s2) (\<lambda>x. x\<lparr>head := (if Some hd_a = n then None else n)\<rparr>) s2)
                    }
                    else if wrap then do {
                      tc \<leftarrow> clients s2 tail;
                      let s' = upd_ws (cw s2) (\<lambda>x. x\<lparr>head := c_next tc\<rparr>) s2;
                      hp \<leftarrow> head_prev;
                      upd_client hp (\<lambda>x. x\<lparr>c_next := None\<rparr>) s'
                    }
                    else do {
                      tc \<leftarrow> clients s2 tail;
                      if c_next tc \<noteq> head_prev then do {
                        hp \<leftarrow> head_prev;
                        upd_client hp (\<lambda>x. x\<lparr>c_next := (if wrap then None else c_next tc)\<rparr>) s2
                      } else Some s2
                    });
            let s4 = upd_ws (cw s3) (\<lambda>x. x\<lparr>current := head_prev\<rparr>) s3;
            s5 \<leftarrow> upd_client tail (\<lambda>x. x\<lparr>c_next := None\<rparr>) s4;
            s6 \<leftarrow> update_focused_client cfg head_prev s5;
            Some (s6\<lparr>del_reg := stack_push cfg (Some hd_a) (del_reg s6)\<rparr>)
          }
          else Some s)
   }"

text \<open>\<open>paste\<close>.  The first two branches share the loop
  \<^verbatim>\<open>while (c) { wss[cw].current = c; c = c->next; wss[cw].client_cnt++; }\<close>
  and the third stops at the last client of the pasted list, which it links to
  \<open>t\<close>.\<close>

partial_function (option) paste_loop :: "howm \<Rightarrow> ptr \<Rightarrow> howm option" where
  "paste_loop s c =
     (case c of
        None \<Rightarrow> Some s
      | Some a \<Rightarrow>
          (case clients s a of
             None \<Rightarrow> None
           | Some ac \<Rightarrow>
               paste_loop
                 (upd_ws (cw s) (\<lambda>x. x\<lparr>current := Some a, client_cnt := client_cnt x + 1\<rparr>) s)
                 (c_next ac)))"

partial_function (option) paste_splice_loop :: "ptr \<Rightarrow> howm \<Rightarrow> addr \<Rightarrow> howm option" where
  "paste_splice_loop t s a =
     (case clients s a of
        None \<Rightarrow> None
      | Some ac \<Rightarrow>
          (case c_next ac of
             None \<Rightarrow>
               upd_client a (\<lambda>x. x\<lparr>c_next := t\<rparr>)
                 (upd_ws (cw s) (\<lambda>x. x\<lparr>current := Some a, client_cnt := client_cnt x + 1\<rparr>) s)
           | Some n \<Rightarrow>
               paste_splice_loop t
                 (upd_ws (cw s) (\<lambda>x. x\<lparr>current := Some a, client_cnt := client_cnt x + 1\<rparr>) s)
                 n))"

definition paste :: "config \<Rightarrow> howm \<Rightarrow> howm option" where
  "paste cfg s =
     (let (head_p, st) = stack_pop (del_reg s); s0 = s\<lparr>del_reg := st\<rparr>
      in case head_p of
           None \<Rightarrow> Some s0
         | Some ha \<Rightarrow> do {
             s1 \<leftarrow> (case current (wss s0 (cw s0)) of
                      None \<Rightarrow>
                        paste_loop (upd_ws (cw s0) (\<lambda>x. x\<lparr>head := head_p, current := head_p\<rparr>) s0)
                          head_p
                    | Some ca \<Rightarrow> do {
                        cc \<leftarrow> clients s0 ca;
                        if c_next cc = None then do {
                          s' \<leftarrow> upd_client ca (\<lambda>x. x\<lparr>c_next := head_p\<rparr>) s0;
                          paste_loop s' head_p
                        } else do {
                          s' \<leftarrow> upd_client ca (\<lambda>x. x\<lparr>c_next := head_p\<rparr>) s0;
                          paste_splice_loop (c_next cc) s' ha
                        }
                      });
             update_focused_client cfg (current (wss s1 (cw s1))) s1
           })"


section \<open>The socket commands\<close>

datatype ipc_errs = IPC_ERR_NONE | IPC_ERR_SYNTAX | IPC_ERR_ALLOC | IPC_ERR_NO_CMD
  | IPC_ERR_TOO_MANY_ARGS | IPC_ERR_TOO_FEW_ARGS | IPC_ERR_ARG_NOT_INT | IPC_ERR_ARG_TOO_LARGE

text \<open>The value of an \<open>enum ipc_errs\<close> constant, which is what is written to the
  socket.\<close>

fun err_code :: "ipc_errs \<Rightarrow> int" where
  "err_code IPC_ERR_NONE = 0"
| "err_code IPC_ERR_SYNTAX = 1"
| "err_code IPC_ERR_ALLOC = 2"
| "err_code IPC_ERR_NO_CMD = 3"
| "err_code IPC_ERR_TOO_MANY_ARGS = 4"
| "err_code IPC_ERR_TOO_FEW_ARGS = 5"
| "err_code IPC_ERR_ARG_NOT_INT = 6"
| "err_code IPC_ERR_ARG_TOO_LARGE = 7"

text \<open>A \<open>char\<close> as the \<open>int\<close> it is promoted to in a comparison (\<open>char\<close> is
  signed on the platforms howm runs on).\<close>

definition c_char :: "char \<Rightarrow> int" where
  "c_char c = (if (of_char c :: nat) < 128 then int (of_char c) else int (of_char c) - 256)"

text \<open>
  \<open>ipc_arg_to_int\<close>.  A C string is the list of its characters before the
  terminating NUL.  The result is the returned number and the value of \<open>*err\<close>
  afterwards.
\<close>

definition ipc_arg_to_int :: "string \<Rightarrow> ipc_errs \<Rightarrow> int \<times> ipc_errs" where
  "ipc_arg_to_int arg0 err =
     (let (sign, arg) = (case arg0 of
                           [] \<Rightarrow> (1, arg0)
                         | c # rest \<Rightarrow> if c = CHR ''-'' then (- 1, rest) else (1, arg0))
      in
        if length arg = 1 \<and> c_char CHR ''0'' < c_char (arg ! 0) \<and> c_char (arg ! 0) \<le> c_char CHR ''9''
        then (if c_char CHR ''0'' \<le> c_char (arg ! 0) \<and> c_char (arg ! 0) \<le> c_char CHR ''9''
              then (sign * (c_char (arg ! 0) - c_char CHR ''0''), err)
              else (0, IPC_ERR_ARG_NOT_INT))
        else if length arg = 2 \<and> c_char CHR ''0'' < c_char (arg ! 0) \<and> c_char (arg ! 0) \<le> c_char CHR ''9''
                \<and> c_char CHR ''0'' \<le> c_char (arg ! 1) \<and> c_char (arg ! 1) \<le> c_char CHR ''9''
        then (if c_char CHR ''0'' < c_char (arg ! 0) \<and> c_char (arg ! 0) \<le> c_char CHR ''9''
                 \<and> c_char CHR ''0'' \<le> c_char (arg ! 1) \<and> c_char (arg ! 1) \<le> c_char CHR ''9''
              then (sign * (10 * (c_char (arg ! 0) - c_char CHR ''0'')
                            + (c_char (arg ! 1) - c_char CHR ''0'')), err)
              else (0, IPC_ERR_ARG_NOT_INT))
        else (0, IPC_ERR_ARG_TOO_LARGE))"

text \<open>\<open>ipc_process_args\<close> cuts the first \<open>len\<close> bytes of the message at each NUL;
  bytes after the last NUL belong to no argument.  (The case that \<open>malloc\<close> or
  \<open>realloc\<close> fails is left out.)\<close>

fun split_nul :: "char list \<Rightarrow> char list \<Rightarrow> string list" where
  "split_nul [] cur = []"
| "split_nul (c # cs) cur =
     (if c = CHR 0x00 then rev cur # split_nul cs [] else split_nul cs (c # cur))"

definition ipc_process_args :: "char list \<Rightarrow> nat \<Rightarrow> ipc_errs \<Rightarrow> string list option \<times> ipc_errs" where
  "ipc_process_args msg len err =
     (let args = split_nul (take len msg) []
      in if length args < 1 then (None, IPC_ERR_TOO_FEW_ARGS) else (Some args, err))"

text \<open>
  The table \<open>commands\<close>.  An entry holds either a command function or an operator;
  the model names the function by the identifier in the source and records each call
  instead of running it.
\<close>

datatype arg_types = TYPE_IGNORE | TYPE_INT | TYPE_CMD

record Command =
  cmd_name :: string
  cmd_is_operator :: bool
  cmd_argc :: int
  cmd_arg_type :: arg_types

datatype ipc_arg = Arg_null | Arg_i int | Arg_cmd "string list"

datatype ipc_call = Call_func string ipc_arg | Call_operator string nat int

definition mk_cmd :: "string \<Rightarrow> int \<Rightarrow> arg_types \<Rightarrow> Command" where
  "mk_cmd n k t = \<lparr>cmd_name = n, cmd_is_operator = False, cmd_argc = k, cmd_arg_type = t\<rparr>"

definition mk_op :: "string \<Rightarrow> int \<Rightarrow> arg_types \<Rightarrow> Command" where
  "mk_op n k t = \<lparr>cmd_name = n, cmd_is_operator = True, cmd_argc = k, cmd_arg_type = t\<rparr>"

definition commands :: "Command list" where
  "commands = [
     mk_cmd ''resize_master'' 1 TYPE_INT,
     mk_cmd ''change_layout'' 1 TYPE_INT,
     mk_cmd ''next_layout'' 0 TYPE_INT,
     mk_cmd ''previous_layout'' 0 TYPE_INT,
     mk_cmd ''last_layout'' 0 TYPE_INT,
     mk_cmd ''change_mode'' 1 TYPE_INT,
     mk_cmd ''toggle_float'' 0 TYPE_INT,
     mk_cmd ''toggle_fullscreen'' 0 TYPE_INT,
     mk_cmd ''quit_howm'' 1 TYPE_INT,
     mk_cmd ''restart_howm'' 1 TYPE_INT,
     mk_cmd ''resize_master'' 1 TYPE_INT,
     mk_cmd ''toggle_bar'' 0 TYPE_INT,
     mk_cmd ''replay'' 0 TYPE_INT,
     mk_cmd ''paste'' 0 TYPE_INT,
     mk_cmd ''send_to_scratchpad'' 0 TYPE_INT,
     mk_cmd ''get_from_scratchpad'' 0 TYPE_INT,
     mk_cmd ''resize_float_height'' 1 TYPE_INT,
     mk_cmd ''resize_float_width'' 1 TYPE_INT,
     mk_cmd ''move_float_x'' 1 TYPE_INT,
     mk_cmd ''move_float_y'' 1 TYPE_INT,
     mk_cmd ''teleport_client'' 1 TYPE_INT,
     mk_cmd ''focus_urgent'' 0 TYPE_INT,
     mk_cmd ''focus_prev_client'' 0 TYPE_INT,
     mk_cmd ''focus_next_client'' 0 TYPE_INT,
     mk_cmd ''move_current_up'' 0 TYPE_INT,
     mk_cmd ''move_current_down'' 0 TYPE_INT,
     mk_cmd ''focus_last_ws'' 0 TYPE_INT,
     mk_cmd ''focus_next_ws'' 0 TYPE_INT,
     mk_cmd ''focus_prev_ws'' 0 TYPE_INT,
     mk_cmd ''make_master'' 0 TYPE_INT,
     mk_cmd ''change_ws'' 1 TYPE_INT,
     mk_cmd ''current_to_ws'' 1 TYPE_INT,
     mk_cmd ''spawn'' 1 TYPE_CMD,
     mk_op ''op_kill'' 2 TYPE_IGNORE,
     mk_op ''op_move_up'' 2 TYPE_IGNORE,
     mk_op ''op_move_down'' 2 TYPE_IGNORE,
     mk_op ''op_shrink_gaps'' 2 TYPE_IGNORE,
     mk_op ''op_grow_gaps'' 2 TYPE_IGNORE,
     mk_op ''op_cut'' 2 TYPE_IGNORE,
     mk_op ''op_focus_down'' 2 TYPE_IGNORE,
     mk_op ''op_focus_up'' 2 TYPE_IGNORE]"

text \<open>
  The loop of \<open>ipc_process_cmd\<close> over the table.  The state of the loop is
  \<open>found\<close>, \<open>err\<close> and the calls made so far; \<open>break\<close> and \<open>goto end\<close> leave
  it.  \<open>args ! k\<close> is read only where the source has checked \<open>args[k]\<close>.
  A call through a NULL entry of the table does not return (\<open>None\<close>).
\<close>

fun ipc_cmd_loop ::
  "Command list \<Rightarrow> string list \<Rightarrow> bool \<Rightarrow> ipc_errs \<Rightarrow> ipc_call list \<Rightarrow>
   (ipc_errs \<times> ipc_call list) option" where
  "ipc_cmd_loop [] args found err calls =
     Some (if found then err else IPC_ERR_NO_CMD, calls)"
| "ipc_cmd_loop (c # cs) args found err calls =
     (if args ! 0 = cmd_name c then
        (if cmd_argc c = 0 then
           (if cmd_is_operator c then None
            else Some (err, calls @ [Call_func (cmd_name c) Arg_null]))
         else if cmd_argc c = 1 \<and> 1 < length args \<and> cmd_arg_type c = TYPE_INT then
           (if cmd_is_operator c then None
            else let (i, err') = ipc_arg_to_int (args ! 1) err
                 in Some (err', calls @ [Call_func (cmd_name c) (Arg_i i)]))
         else if cmd_argc c = 1 \<and> 1 < length args \<and> cmd_arg_type c = TYPE_CMD then
           (if cmd_is_operator c then None
            else Some (err, calls @ [Call_func (cmd_name c) (Arg_cmd (drop 1 args))]))
         else if cmd_argc c = 2 \<and> 2 < length args \<and> take 1 (args ! 2) = ''w'' then
           (if \<not> cmd_is_operator c then None
            else let (i, err') = ipc_arg_to_int (args ! 1) err
                 in Some (err', calls @ [Call_operator (cmd_name c) WORKSPACE i]))
         else if cmd_argc c = 2 \<and> 2 < length args \<and> take 1 (args ! 2) = ''c'' then
           (if \<not> cmd_is_operator c then None
            else let (i, err') = ipc_arg_to_int (args ! 1) err
                 in Some (err', calls @ [Call_operator (cmd_name c) CLIENT i]))
         else Some (IPC_ERR_SYNTAX, calls))
      else ipc_cmd_loop cs args found err calls)"

text \<open>\<open>ipc_process_cmd\<close> yields the status that \<open>main\<close> writes back, and the calls
  it made.\<close>

definition ipc_process_cmd :: "char list \<Rightarrow> nat \<Rightarrow> (ipc_errs \<times> ipc_call list) option" where
  "ipc_process_cmd msg len =
     (case ipc_process_args msg len IPC_ERR_NONE of
        (None, err) \<Rightarrow> Some (err, [])
      | (Some args, err) \<Rightarrow>
          if err \<noteq> IPC_ERR_NONE then Some (err, [])
          else ipc_cmd_loop commands args False err [])"

section \<open>The key-press automaton\<close>

text \<open>
  The operator and command functions that the tables of \<open>config.h\<close> point to are
  named by a datatype.  Of the commands only \<open>replay\<close> and \<open>change_mode\<close> read or
  write a variable of the automaton; every other command is \<open>Cmd\<close> with its name.
  A table entry's \<open>Arg\<close> is kept as the \<open>int\<close> member of the union.
\<close>

datatype opfun = Op_kill | Op_move_up | Op_move_down | Op_focus_down | Op_focus_up
  | Op_shrink_gaps | Op_grow_gaps | Op_cut

datatype cmdfun = Replay | Change_mode | Cmd string

record Key =
  k_mod :: int
  k_mode :: "32 word"
  k_sym :: "32 word"
  k_func :: "cmdfun option"
  k_arg :: int

record Operator =
  o_mod :: int
  o_sym :: "32 word"
  o_mode :: "32 word"
  o_func :: opfun

record Motion =
  m_mod :: int
  m_sym :: "32 word"
  m_type :: nat

record keymap =
  operators :: "Operator list"
  motions :: "Motion list"
  keys :: "Key list"
  COUNT_MOD :: int

datatype states = OPERATOR_STATE | COUNT_STATE | MOTION_STATE

record replay_state =
  last_op :: "opfun option"
  last_cmd :: "cmdfun option"
  last_arg :: int
  last_type :: nat
  last_cnt :: int

text \<open>Every call of an operator or a command is appended to \<open>calls\<close>; this trace
  stands for the effect of the call on the windows.\<close>

datatype call = Op_call opfun nat int | Cmd_call cmdfun int

record fsa =
  cur_mode :: "32 word"
  cur_state :: states
  cur_cnt :: int
  operator_func :: "opfun option"
  rep_state :: replay_state
  calls :: "call list"

text \<open>\<open>numlockmask\<close> is a static variable that nothing assigns.\<close>

definition numlockmask :: int where
  "numlockmask = 0"

definition XCB_MOD_MASK_LOCK :: int where
  "XCB_MOD_MASK_LOCK = 2"

definition CLEANMASK :: "int \<Rightarrow> int" where
  "CLEANMASK m = m AND NOT (numlockmask OR XCB_MOD_MASK_LOCK)"

definition EQUALMODS :: "int \<Rightarrow> int \<Rightarrow> bool" where
  "EQUALMODS m om = (CLEANMASK m = CLEANMASK om)"

definition XK_0 :: "32 word" where "XK_0 = 0x30"
definition XK_1 :: "32 word" where "XK_1 = 0x31"
definition XK_9 :: "32 word" where "XK_9 = 0x39"

abbreviation (input) END_MODES :: int where "END_MODES \<equiv> 3"

text \<open>A key press: the keysym of the key and the modifier state.\<close>

record key_press =
  ke_keysym :: "32 word"
  ke_state :: "16 word"

definition save_last_ocm :: "opfun option \<Rightarrow> nat \<Rightarrow> int \<Rightarrow> fsa \<Rightarrow> fsa" where
  "save_last_ocm op type cnt s =
     s\<lparr>rep_state := (rep_state s)\<lparr>last_op := op, last_type := type, last_cnt := cnt,
                                   last_cmd := None\<rparr>\<rparr>"

definition save_last_cmd :: "cmdfun option \<Rightarrow> int \<Rightarrow> fsa \<Rightarrow> fsa" where
  "save_last_cmd cmd arg s =
     s\<lparr>rep_state := (rep_state s)\<lparr>last_cmd := cmd, last_arg := arg, last_op := None\<rparr>\<rparr>"

text \<open>A call through a function pointer; a NULL pointer does not return.\<close>

definition call_operator :: "opfun option \<Rightarrow> nat \<Rightarrow> int \<Rightarrow> fsa \<Rightarrow> fsa option" where
  "call_operator f type cnt s =
     (case f of None \<Rightarrow> None | Some op \<Rightarrow> Some (s\<lparr>calls := calls s @ [Op_call op type cnt]\<rparr>))"

text \<open>\<open>change_mode\<close> compares \<open>arg->i\<close> with \<open>(int)cur_mode\<close> and stores it in
  the unsigned \<open>cur_mode\<close>.\<close>

definition change_mode :: "int \<Rightarrow> fsa \<Rightarrow> fsa" where
  "change_mode i s =
     (if i \<ge> END_MODES \<or> i = sint (cur_mode s) then s else s\<lparr>cur_mode := word_of_int i\<rparr>)"

text \<open>A command other than \<open>replay\<close>.\<close>

definition call_plain :: "cmdfun \<Rightarrow> int \<Rightarrow> fsa \<Rightarrow> fsa" where
  "call_plain f arg s =
     (let s' = s\<lparr>calls := calls s @ [Cmd_call f arg]\<rparr>
      in if f = Change_mode then change_mode arg s' else s')"

text \<open>\<open>replay\<close> calls \<open>last_cmd\<close> when it is set and \<open>last_op\<close> otherwise.  If
  \<open>last_cmd\<close> were \<open>replay\<close> itself the recursion would not end.\<close>

definition replay :: "fsa \<Rightarrow> fsa option" where
  "replay s =
     (case last_cmd (rep_state s) of
        Some f \<Rightarrow> if f = Replay then None else Some (call_plain f (last_arg (rep_state s)) s)
      | None \<Rightarrow>
          call_operator (last_op (rep_state s)) (last_type (rep_state s))
            (last_cnt (rep_state s)) s)"

definition call_cmd :: "cmdfun \<Rightarrow> int \<Rightarrow> fsa \<Rightarrow> fsa option" where
  "call_cmd f arg s = (if f = Replay then replay s else Some (call_plain f arg s))"

text \<open>The loop over \<open>operators\<close>; it stops at the first row that matches.\<close>

fun operators_loop :: "Operator list \<Rightarrow> key_press \<Rightarrow> fsa \<Rightarrow> fsa" where
  "operators_loop [] ke s = s"
| "operators_loop (r # rs) ke s =
     (if ke_keysym ke = o_sym r \<and> EQUALMODS (o_mod r) (uint (ke_state ke))
         \<and> o_mode r = cur_mode s
      then s\<lparr>operator_func := Some (o_func r), cur_state := COUNT_STATE\<rparr>
      else operators_loop rs ke s)"

text \<open>The loop over \<open>motions\<close>; it has no \<open>break\<close> and goes on after a match.\<close>

fun motions_loop :: "Motion list \<Rightarrow> key_press \<Rightarrow> fsa \<Rightarrow> fsa option" where
  "motions_loop [] ke s = Some s"
| "motions_loop (r # rs) ke s =
     (if ke_keysym ke = m_sym r \<and> EQUALMODS (m_mod r) (uint (ke_state ke)) then do {
        s1 \<leftarrow> call_operator (operator_func s) (m_type r) (cur_cnt s) s;
        let s2 = save_last_ocm (operator_func s1) (m_type r) (cur_cnt s1) s1;
        motions_loop rs ke (s2\<lparr>cur_state := OPERATOR_STATE, cur_cnt := 1\<rparr>)
      }
      else motions_loop rs ke s)"

fun keys_loop :: "Key list \<Rightarrow> key_press \<Rightarrow> fsa \<Rightarrow> fsa option" where
  "keys_loop [] ke s = Some s"
| "keys_loop (r # rs) ke s =
     (if ke_keysym ke = k_sym r \<and> EQUALMODS (k_mod r) (uint (ke_state ke))
         \<and> k_func r \<noteq> None \<and> k_mode r = cur_mode s
      then do {
        f \<leftarrow> k_func r;
        s1 \<leftarrow> call_cmd f (k_arg r) s;
        keys_loop rs ke (if f \<noteq> Replay then save_last_cmd (k_func r) (k_arg r) s1 else s1)
      }
      else keys_loop rs ke s)"

definition key_press_event :: "keymap \<Rightarrow> key_press \<Rightarrow> fsa \<Rightarrow> fsa option" where
  "key_press_event km ke s = do {
     s1 \<leftarrow> (case cur_state s of
              OPERATOR_STATE \<Rightarrow> Some (operators_loop (operators km) ke s)
            | COUNT_STATE \<Rightarrow>
                if EQUALMODS (COUNT_MOD km) (uint (ke_state ke)) \<and> XK_1 \<le> ke_keysym ke
                   \<and> ke_keysym ke \<le> XK_9
                then Some (s\<lparr>cur_cnt := uint (ke_keysym ke - XK_0), cur_state := MOTION_STATE\<rparr>)
                else motions_loop (motions km) ke s
            | MOTION_STATE \<Rightarrow> motions_loop (motions km) ke s);
     keys_loop (keys km) ke s1
   }"

text \<open>The operator calls of a trace, in order.\<close>

fun op_calls :: "call list \<Rightarrow> (opfun \<times> nat \<times> int) list" where
  "op_calls [] = []"
| "op_calls (Op_call f t n # cs) = (f, t, n) # op_calls cs"
| "op_calls (Cmd_call f a # cs) = op_calls cs"

section \<open>Observations and example states\<close>

text \<open>The windows of the clients on a list, in list order.\<close>

partial_function (option) win_list :: "store \<Rightarrow> ptr \<Rightarrow> 32 word list option" where
  "win_list h p =
     (case p of
        None \<Rightarrow> Some []
      | Some a \<Rightarrow>
          (case h a of
             None \<Rightarrow> None
           | Some c \<Rightarrow> do { ws \<leftarrow> win_list h (c_next c); Some (c_win c # ws) }))"

definition windows_after :: "howm option \<Rightarrow> int \<Rightarrow> 32 word list option" where
  "windows_after r w =
     (case r of None \<Rightarrow> None | Some s \<Rightarrow> win_list (clients s) (head (wss s w)))"

definition cnt_after :: "howm option \<Rightarrow> int \<Rightarrow> int option" where
  "cnt_after r w = (case r of None \<Rightarrow> None | Some s \<Rightarrow> Some (client_cnt (wss s w)))"

definition ex_cfg :: config where
  "ex_cfg = \<lparr>WORKSPACES = 3, DELETE_REGISTER_SIZE = 5, BORDER_PX = 2, BAR_BOTTOM = False,
     ZOOM_GAP = False, CENTER_FLOATING = True, FOLLOW_MOVE = True,
     FLOAT_SPAWN_WIDTH = 500, FLOAT_SPAWN_HEIGHT = 500,
     SCRATCHPAD_WIDTH = 500, SCRATCHPAD_HEIGHT = 500, rules = []\<rparr>"

definition ex_ws :: Workspace where
  "ex_ws = \<lparr>layout = ZOOM, client_cnt = 0, ws_gap = 0, master_ratio = 1 / 2, bar_height = 20,
     head = None, prev_foc = None, current = None\<rparr>"

text \<open>howm after start-up: no clients, workspace 1 current, an empty delete register.\<close>

definition ex_init :: howm where
  "ex_init = \<lparr>wss = (\<lambda>w. ex_ws), clients = (\<lambda>a. None), brk = 1, cw = 1, last_ws = 0,
     prev_layout = 0, scratchpad = None,
     del_reg = \<lparr>st_size = 0, st_contents = (\<lambda>i. None)\<rparr>,
     screen_width = 1920, screen_height = 1080, screen_root = 0x123\<rparr>"

definition ex_map :: "32 word \<Rightarrow> wtype list \<Rightarrow> map_request" where
  "ex_map win types = \<lparr>me_window = win, wa_override_redirect = Some False,
     window_type = Some types, transient_for = 0, geometry = None, wm_class = None\<rparr>"


text \<open>Two workspaces in use: window 42 alone on workspace 1, window 43 alone on
  workspace 2, workspace 1 current.\<close>

definition ex_two :: "howm option" where
  "ex_two = map_event ex_cfg (ex_map 42 []) ex_init \<bind> change_ws ex_cfg 2
      \<bind> map_event ex_cfg (ex_map 43 []) \<bind> change_ws ex_cfg 1"

definition reg_size_after :: "howm option \<Rightarrow> int option" where
  "reg_size_after r = (case r of None \<Rightarrow> None | Some s \<Rightarrow> Some (st_size (del_reg s)))"

text \<open>Two clients on workspace 1: the client at address 1 (window 42), then the
  client at address 2 (window 43).\<close>

definition ex_list2 :: howm where
  "ex_list2 = ex_init\<lparr>
     clients := (\<lambda>a. None)(1 \<mapsto> zero_client\<lparr>c_next := Some 2, c_win := 42\<rparr>,
                            2 \<mapsto> zero_client\<lparr>c_win := 43\<rparr>),
     wss := (\<lambda>w. ex_ws)(1 := ex_ws\<lparr>head := Some 1, client_cnt := 2, current := Some 2,
                                      prev_foc := Some 1\<rparr>),
     brk := 3\<rparr>"

text \<open>Two stores with the same addresses and the same \<open>next\<close> pointers.\<close>

definition same_links :: "store \<Rightarrow> store \<Rightarrow> bool" where
  "same_links h h' = (\<forall>a. map_option c_next (h' a) = map_option c_next (h a))"

text \<open>
  A workspace is in order when its list ends, its \<open>current\<close> pointer is NULL or
  points to a client, its layout is one of the four and its \<open>master_ratio\<close> lies
  between 0 and 1.  The state is in order when \<open>cw\<close> is a workspace and all
  workspaces are in order.
\<close>

definition ws_ok :: "howm \<Rightarrow> int \<Rightarrow> bool" where
  "ws_ok s w =
     ((\<exists>xs. clist (clients s) (head (wss s w)) xs)
      \<and> (current (wss s w) \<noteq> None \<longrightarrow> deref s (current (wss s w)) \<noteq> None)
      \<and> 0 \<le> layout (wss s w) \<and> layout (wss s w) < END_LAYOUT
      \<and> 0 \<le> master_ratio (wss s w) \<and> master_ratio (wss s w) \<le> 1)"

definition howm_ok :: "config \<Rightarrow> howm \<Rightarrow> bool" where
  "howm_ok cfg s =
     (1 \<le> cw s \<and> cw s \<le> WORKSPACES cfg
      \<and> (\<forall>w. 1 \<le> w \<and> w \<le> WORKSPACES cfg \<longrightarrow> ws_ok s w))"

text \<open>The rectangle \<open>(x, y, w, h)\<close> stored in the client at an address.\<close>

definition client_rect :: "howm \<Rightarrow> addr \<Rightarrow> (16 word \<times> 16 word \<times> 16 word \<times> 16 word) option" where
  "client_rect s a =
     (case clients s a of None \<Rightarrow> None | Some c \<Rightarrow> Some (c_x c, c_y c, c_w c, c_h c))"

text \<open>Three tiled clients on workspace 1, which is in the vstack layout.\<close>

definition ex_list3 :: howm where
  "ex_list3 = ex_init\<lparr>
     clients := (\<lambda>a. None)(1 \<mapsto> zero_client\<lparr>c_next := Some 2, c_win := 42\<rparr>,
                            2 \<mapsto> zero_client\<lparr>c_next := Some 3, c_win := 43\<rparr>,
                            3 \<mapsto> zero_client\<lparr>c_win := 44\<rparr>),
     wss := (\<lambda>w. ex_ws)(1 := ex_ws\<lparr>layout := VSTACK, head := Some 1, client_cnt := 3,
                                      current := Some 3, prev_foc := Some 2\<rparr>),
     brk := 4\<rparr>"

section \<open>Key sequences\<close>

text \<open>The tests that \<open>key_press_event\<close> applies to a key press and a table row.\<close>

definition operator_match :: "key_press \<Rightarrow> fsa \<Rightarrow> Operator \<Rightarrow> bool" where
  "operator_match ke s r =
     (ke_keysym ke = o_sym r \<and> EQUALMODS (o_mod r) (uint (ke_state ke)) \<and> o_mode r = cur_mode s)"

definition motion_match :: "key_press \<Rightarrow> Motion \<Rightarrow> bool" where
  "motion_match ke r = (ke_keysym ke = m_sym r \<and> EQUALMODS (m_mod r) (uint (ke_state ke)))"

definition count_key :: "keymap \<Rightarrow> key_press \<Rightarrow> bool" where
  "count_key km ke =
     (EQUALMODS (COUNT_MOD km) (uint (ke_state ke)) \<and> XK_1 \<le> ke_keysym ke \<and> ke_keysym ke \<le> XK_9)"

text \<open>No row of \<open>keys\<close> for this key (in whatever mode) is bound to \<open>replay\<close>.\<close>

definition no_replay_binding :: "keymap \<Rightarrow> key_press \<Rightarrow> bool" where
  "no_replay_binding km ke =
     (\<forall>r \<in> set (keys km).
        ke_keysym ke = k_sym r \<and> EQUALMODS (k_mod r) (uint (ke_state ke)) \<longrightarrow>
        k_func r \<noteq> Some Replay)"

definition op_calls_after :: "fsa option \<Rightarrow> (opfun \<times> nat \<times> int) list option" where
  "op_calls_after r = (case r of None \<Rightarrow> None | Some s \<Rightarrow> Some (op_calls (calls s)))"

definition state_after :: "fsa option \<Rightarrow> (states \<times> int) option" where
  "state_after r = (case r of None \<Rightarrow> None | Some s \<Rightarrow> Some (cur_state s, cur_cnt s))"

text \<open>
  An example keymap with Mod4 (64) as the modifier: the operator \<open>q\<close> (kill), the
  motions \<open>c\<close> (client) and \<open>w\<close> (workspace), and \<open>replay\<close> on the period key.
\<close>

definition ex_km :: keymap where
  "ex_km = \<lparr>operators = [\<lparr>o_mod = 64, o_sym = 0x71, o_mode = 0, o_func = Op_kill\<rparr>],
     motions = [\<lparr>m_mod = 64, m_sym = 0x63, m_type = CLIENT\<rparr>,
                \<lparr>m_mod = 64, m_sym = 0x77, m_type = WORKSPACE\<rparr>],
     keys = [\<lparr>k_mod = 64, k_mode = 0, k_sym = 0x2e, k_func = Some Replay, k_arg = 0\<rparr>],
     COUNT_MOD = 64\<rparr>"

text \<open>The same with \<open>replay\<close> bound to \<open>c\<close>; with the client motion on the key
  \<open>3\<close>; and with a second row for the key \<open>c\<close> in \<open>motions\<close>.\<close>

definition ex_km_replay :: keymap where
  "ex_km_replay = ex_km\<lparr>keys :=
     [\<lparr>k_mod = 64, k_mode = 0, k_sym = 0x63, k_func = Some Replay, k_arg = 0\<rparr>]\<rparr>"

definition ex_km_digit :: keymap where
  "ex_km_digit = ex_km\<lparr>motions := [\<lparr>m_mod = 64, m_sym = 0x33, m_type = CLIENT\<rparr>]\<rparr>"

definition ex_km_twice :: keymap where
  "ex_km_twice = ex_km\<lparr>motions := [\<lparr>m_mod = 64, m_sym = 0x63, m_type = CLIENT\<rparr>,
                                     \<lparr>m_mod = 64, m_sym = 0x63, m_type = WORKSPACE\<rparr>]\<rparr>"

definition ex_key :: "32 word \<Rightarrow> key_press" where
  "ex_key k = \<lparr>ke_keysym = k, ke_state = 64\<rparr>"

text \<open>The automaton at start-up.\<close>

definition ex_fsa :: fsa where
  "ex_fsa = \<lparr>cur_mode = 0, cur_state = OPERATOR_STATE, cur_cnt = 1, operator_func = None,
     rep_state = \<lparr>last_op = None, last_cmd = None, last_arg = 0, last_type = 0, last_cnt = 0\<rparr>,
     calls = []\<rparr>"

text \<open>The loops are given to the code generator by their defining equations.\<close>

declare prev_client_loop.simps [code] walk.simps [code] find_in_list.simps [code]
  non_tff_count_loop.simps [code] first_non_tff_loop.simps [code] zoom_loop.simps [code]
  grid_loop.simps [code] stack_loop.simps [code] find_loc.simps [code] paste_loop.simps [code]
  paste_splice_loop.simps [code] win_list.simps [code]

text \<open>Three clients mapped one after the other on workspace 1.\<close>

definition ex_three :: "howm option" where
  "ex_three = map_event ex_cfg (ex_map 42 []) ex_init \<bind> map_event ex_cfg (ex_map 43 [])
      \<bind> map_event ex_cfg (ex_map 44 [])"

definition focus_after :: "howm option \<Rightarrow> int \<Rightarrow> (ptr \<times> ptr) option" where
  "focus_after r w =
     (case r of None \<Rightarrow> None | Some s \<Rightarrow> Some (current (wss s w), prev_foc (wss s w)))"

text \<open>Window 42 on workspace 1; windows 43 and 44 mapped on workspace 2 and destroyed
  while workspace 1 is the current one.\<close>

definition ex_stale :: "howm option" where
  "ex_stale = map_event ex_cfg (ex_map 42 []) ex_init \<bind> change_ws ex_cfg 2
      \<bind> map_event ex_cfg (ex_map 43 []) \<bind> map_event ex_cfg (ex_map 44 [])
      \<bind> change_ws ex_cfg 1
      \<bind> destroy_event ex_cfg \<lparr>ev_window = 44, ev_event = 44\<rparr>
      \<bind> destroy_event ex_cfg \<lparr>ev_window = 43, ev_event = 43\<rparr>"

definition live_after :: "howm option \<Rightarrow> addr \<Rightarrow> bool option" where
  "live_after r a = (case r of None \<Rightarrow> None | Some s \<Rightarrow> Some (clients s a \<noteq> None))"

section \<open>Evaluation rules\<close>

text \<open>
  The loops are least fixed points; the rules below unfold one iteration when the
  argument is a constructor (or, for a loop over addresses, when the store lookup is
  decided), so that the simplifier can run the model on a concrete state.
\<close>

named_theorems howm_eval

lemma walk_eval [howm_eval]:
  "walk h None n = Some n"
  "walk h (Some a) n = (case h a of None \<Rightarrow> None | Some c \<Rightarrow> walk h (c_next c) (Suc n))"
  by (subst walk.simps, simp)+

lemma find_in_list_eval [howm_eval]:
  "find_in_list h win None = Some None"
  "find_in_list h win (Some a) =
     (case h a of None \<Rightarrow> None
      | Some c \<Rightarrow> if win = c_win c then Some (Some a) else find_in_list h win (c_next c))"
  by (subst find_in_list.simps, simp)+

lemma prev_client_loop_eval [howm_eval]:
  "prev_client_loop h c p =
     (if h p = None then None
      else if c_next (the (h p)) = None then Some p
      else if c_next (the (h p)) \<noteq> c then prev_client_loop h c (the (c_next (the (h p))))
      else Some p)"
  by (subst prev_client_loop.simps) (auto split: option.splits)

lemma win_list_eval [howm_eval]:
  "win_list h None = Some []"
  "win_list h (Some a) =
     (case h a of None \<Rightarrow> None
      | Some c \<Rightarrow> do { ws \<leftarrow> win_list h (c_next c); Some (c_win c # ws) })"
  by (subst win_list.simps, simp)+

lemma non_tff_count_loop_eval [howm_eval]:
  "non_tff_count_loop h None n = Some n"
  "non_tff_count_loop h (Some a) n =
     (case h a of None \<Rightarrow> None
      | Some c \<Rightarrow> non_tff_count_loop h (c_next c) (if \<not> FFT c then n + 1 else n))"
  by (subst non_tff_count_loop.simps, simp)+

lemma first_non_tff_loop_eval [howm_eval]:
  "first_non_tff_loop h None = Some None"
  "first_non_tff_loop h (Some a) =
     (case h a of None \<Rightarrow> None
      | Some c \<Rightarrow> if FFT c then first_non_tff_loop h (c_next c) else Some (Some a))"
  by (subst first_non_tff_loop.simps, simp)+

lemma zoom_loop_eval [howm_eval]:
  "zoom_loop y w ht h None = Some h"
  "zoom_loop y w ht h (Some a) =
     (case h a of None \<Rightarrow> None
      | Some c \<Rightarrow> zoom_loop y w ht
                    (if \<not> FFT c then h(a \<mapsto> change_client_geom c 0 y w ht) else h) (c_next c))"
  by (subst zoom_loop.simps, simp)+

lemma stack_loop_eval [howm_eval]:
  "stack_loop vert ms client_span sw sh bh h None client_x client_y = Some h"
  "stack_loop vert ms client_span sw sh bh h (Some a) client_x client_y =
     (case h a of
        None \<Rightarrow> None
      | Some c \<Rightarrow>
          if FFT c then stack_loop vert ms client_span sw sh bh h (c_next c) client_x client_y
          else if vert then
            stack_loop vert ms client_span sw sh bh
              (h(a \<mapsto> change_client_geom c ms client_y (sw - ms) client_span))
              (c_next c) client_x (client_y + client_span)
          else
            stack_loop vert ms client_span sw sh bh
              (h(a \<mapsto> change_client_geom c client_x ms client_span (sh - bh - ms)))
              (c_next c) (client_x + client_span) client_y)"
  by (subst stack_loop.simps, simp)+

lemma find_loc_eval [howm_eval]:
  "find_loc h c None temp = Some None"
  "find_loc h c (Some a) temp =
     (if Some a = c then Some (Some temp)
      else (case h a of None \<Rightarrow> None | Some ac \<Rightarrow> find_loc h c (c_next ac) (Next_of a)))"
  by (subst find_loc.simps, simp)+

lemma paste_loop_eval [howm_eval]:
  "paste_loop s None = Some s"
  "paste_loop s (Some a) =
     (case clients s a of
        None \<Rightarrow> None
      | Some ac \<Rightarrow>
          paste_loop
            (upd_ws (cw s) (\<lambda>x. x\<lparr>current := Some a, client_cnt := client_cnt x + 1\<rparr>) s)
            (c_next ac))"
  by (subst paste_loop.simps, simp)+

lemma paste_splice_loop_eval [howm_eval]:
  "paste_splice_loop t s a =
     (if clients s a = None then None
      else if c_next (the (clients s a)) = None then
        upd_client a (\<lambda>x. x\<lparr>c_next := t\<rparr>)
          (upd_ws (cw s) (\<lambda>x. x\<lparr>current := Some a, client_cnt := client_cnt x + 1\<rparr>) s)
      else paste_splice_loop t
          (upd_ws (cw s) (\<lambda>x. x\<lparr>current := Some a, client_cnt := client_cnt x + 1\<rparr>) s)
          (the (c_next (the (clients s a)))))"
  by (subst paste_splice_loop.simps) (auto split: option.splits)

lemmas howm_defs =
  deref_def valid_def upd_ws_def upd_client_def ws_idx_def prev_client_def next_client_def
  find_client_by_win_def get_non_tff_count_def get_first_non_tff_def draw_clients_def
  zoom_def grid_def stack_def arrange_windows_def update_focused_client_def change_ws_def
  correct_ws_def zero_client_def create_client_def client_to_ws_def set_loc_def
  remove_client_def apply_rules_def map_event_def destroy_event_def unmap_event_def
  stack_push_def stack_pop_def op_cut_def paste_def change_client_geom_def FFT_def
  windows_after_def cnt_after_def reg_size_after_def focus_after_def c_div_def

lemmas ex_defs = ex_cfg_def ex_ws_def ex_init_def ex_map_def


section \<open>The model on ordinary sequences\<close>

text \<open>
  Three map requests put the clients on the list in order and focus the last one.
  Cutting one client takes the focused client 44 off the list and onto the register;
  pasting it on workspace 2 puts it there.  Cutting two clients from the last one
  wraps around to the head, and pasting them back appends them after the remaining
  client.
\<close>

lemma map_three_clients:
  "windows_after ex_three 1 = Some [42, 43, 44] \<and> cnt_after ex_three 1 = Some 3
   \<and> focus_after ex_three 1 = Some (Some 3, Some 2)"
  by (simp add: ex_three_def howm_defs ex_defs howm_eval upto.simps)

lemma cut_one_client:
  "windows_after (ex_three \<bind> op_cut ex_cfg CLIENT 1) 1 = Some [42, 43]
   \<and> cnt_after (ex_three \<bind> op_cut ex_cfg CLIENT 1) 1 = Some 2
   \<and> focus_after (ex_three \<bind> op_cut ex_cfg CLIENT 1) 1 = Some (Some 2, Some 1)
   \<and> reg_size_after (ex_three \<bind> op_cut ex_cfg CLIENT 1) = Some 1"
  by (simp add: ex_three_def howm_defs ex_defs howm_eval upto.simps op_cut_client_loop.simps)

lemma cut_and_paste_elsewhere:
  "windows_after (ex_three \<bind> op_cut ex_cfg CLIENT 1 \<bind> change_ws ex_cfg 2 \<bind> paste ex_cfg) 2
     = Some [44]
   \<and> cnt_after (ex_three \<bind> op_cut ex_cfg CLIENT 1 \<bind> change_ws ex_cfg 2 \<bind> paste ex_cfg) 2
     = Some 1
   \<and> cnt_after (ex_three \<bind> op_cut ex_cfg CLIENT 1 \<bind> change_ws ex_cfg 2 \<bind> paste ex_cfg) 1
     = Some 2
   \<and> reg_size_after (ex_three \<bind> op_cut ex_cfg CLIENT 1 \<bind> change_ws ex_cfg 2 \<bind> paste ex_cfg)
     = Some 0"
  by (simp add: ex_three_def howm_defs ex_defs howm_eval upto.simps op_cut_client_loop.simps)

lemma cut_two_and_paste_back:
  "windows_after (ex_three \<bind> op_cut ex_cfg CLIENT 2) 1 = Some [43]
   \<and> cnt_after (ex_three \<bind> op_cut ex_cfg CLIENT 2) 1 = Some 1
   \<and> windows_after (ex_three \<bind> op_cut ex_cfg CLIENT 2 \<bind> paste ex_cfg) 1 = Some [43, 44, 42]
   \<and> cnt_after (ex_three \<bind> op_cut ex_cfg CLIENT 2 \<bind> paste ex_cfg) 1 = Some 3"
  by (simp add: ex_three_def howm_defs ex_defs howm_eval upto.simps op_cut_client_loop.simps)

section \<open>The map request of a dock window (C5)\<close>

text \<open>
  C5 says that after the map request of a window whose type is DOCK or TOOLBAR no
  client for the window is on any list and the client count of the current workspace
  is unchanged.  \<open>map_event\<close> calls \<open>create_client\<close>, which links the client and
  counts it, before it looks at the type, and the \<open>return\<close> for a dock window
  undoes neither.  On the start-up state, the map request of the dock window 42
  leaves a client for window 42 on the list of workspace 1 and the count at 1.
\<close>

theorem map_event_dock_is_managed:
  "windows_after (map_event ex_cfg (ex_map 42 [DOCK]) ex_init) 1 = Some [42]
   \<and> cnt_after (map_event ex_cfg (ex_map 42 [DOCK]) ex_init) 1 = Some 1
   \<and> cnt_after (Some ex_init) 1 = Some 0"
  by (simp add: howm_defs ex_defs howm_eval upto.simps)

section \<open>Unmap notifications (C6)\<close>

text \<open>
  C6 says that an unmap notification whose event window is not the root removes the
  client.  The guard of \<open>unmap_event\<close> compares the negated event window with the
  root, so with the root window 0x123 the notification for the managed window 42,
  sent to the event window 0x456, leaves the client on its list; the destroy
  notification for the same window removes it.
\<close>

theorem unmap_event_keeps_client:
  "windows_after (map_event ex_cfg (ex_map 42 []) ex_init
      \<bind> unmap_event ex_cfg \<lparr>ev_window = 42, ev_event = 0x456\<rparr>) 1 = Some [42]
   \<and> windows_after (map_event ex_cfg (ex_map 42 []) ex_init
      \<bind> destroy_event ex_cfg \<lparr>ev_window = 42, ev_event = 0x456\<rparr>) 1 = Some []"
  by (simp add: howm_defs ex_defs howm_eval upto.simps)

text \<open>Whatever the event window is, a root window other than 0 and 1 makes the
  guard false: the handler only looks the client up.\<close>

lemma unmap_event_never_removes:
  "screen_root s \<noteq> 0 \<Longrightarrow> screen_root s \<noteq> 1 \<Longrightarrow>
   unmap_event cfg ue s = (case find_client_by_win cfg s (ev_window ue) of
                             None \<Rightarrow> None | Some c \<Rightarrow> Some s)"
  by (auto simp: unmap_event_def split: option.splits)

text \<open>And when the event window is the root, the guard is false as well.\<close>

lemma unmap_event_root:
  "ev_event ue = screen_root s \<Longrightarrow>
   unmap_event cfg ue s = (case find_client_by_win cfg s (ev_window ue) of
                             None \<Rightarrow> None | Some c \<Rightarrow> Some s)"
  by (auto simp: unmap_event_def split: option.splits)

section \<open>The client count after a cut (C1)\<close>

text \<open>
  C1 says that \<open>client_cnt\<close> of every workspace equals the length of its list after
  any sequence of operations.  The workspace loop of \<open>op_cut\<close> decrements \<open>cnt\<close>
  between clearing \<open>head\<close> and clearing \<open>client_cnt\<close>, so the count that is
  cleared belongs to the workspace before the one that was emptied.  From the
  start-up state, mapping window 42 and cutting one workspace leaves workspace 1 with
  an empty list and \<open>client_cnt = 1\<close>.
\<close>

theorem op_cut_workspace_stale_count:
  "windows_after (map_event ex_cfg (ex_map 42 []) ex_init \<bind> op_cut ex_cfg WORKSPACE 1) 1 = Some []
   \<and> cnt_after (map_event ex_cfg (ex_map 42 []) ex_init \<bind> op_cut ex_cfg WORKSPACE 1) 1 = Some 1"
  by (simp add: howm_defs ex_defs howm_eval upto.simps op_cut_ws_loop.simps)

section \<open>Cutting more clients than there are (C2)\<close>

text \<open>
  C2 says that \<open>op_cut\<close> with type client and a count of at least the client count
  of the current workspace cuts the current workspace alone.  The source sends this
  case through the workspace loop with the count unchanged, so the count is taken as
  a number of workspaces.  With window 42 alone on the current workspace 1 and window
  43 alone on workspace 2, cutting 2 clients empties workspace 2 as well and pushes
  two lists; workspace 1 loses its count and workspace 2 keeps the count 1 (the slip
  of C1).
\<close>

theorem op_cut_client_cuts_other_workspace:
  "windows_after ex_two 1 = Some [42] \<and> windows_after ex_two 2 = Some [43]
   \<and> cnt_after ex_two 1 = Some 1 \<and> cnt_after ex_two 2 = Some 1
   \<and> reg_size_after ex_two = Some 0
   \<and> windows_after (ex_two \<bind> op_cut ex_cfg CLIENT 2) 1 = Some []
   \<and> windows_after (ex_two \<bind> op_cut ex_cfg CLIENT 2) 2 = Some []
   \<and> cnt_after (ex_two \<bind> op_cut ex_cfg CLIENT 2) 1 = Some 0
   \<and> cnt_after (ex_two \<bind> op_cut ex_cfg CLIENT 2) 2 = Some 1
   \<and> reg_size_after (ex_two \<bind> op_cut ex_cfg CLIENT 2) = Some 2"
  by (simp add: ex_two_def howm_defs ex_defs howm_eval upto.simps op_cut_ws_loop.simps)

section \<open>Arguments that are not numbers (C9)\<close>

text \<open>
  C9 says that an integer argument that is not a decimal number is answered with
  arg-not-int.  In \<open>ipc_arg_to_int\<close> the two assignments of \<open>IPC_ERR_ARG_NOT_INT\<close>
  sit behind a test that repeats the test of the enclosing branch, so they are never
  reached, and an argument such as \<open>a\<close> falls through to \<open>IPC_ERR_ARG_TOO_LARGE\<close>.
  The command \<open>change_ws\<close> with the argument \<open>a\<close> is answered with status 7.
\<close>

theorem ipc_arg_not_int_reports_too_large:
  "ipc_arg_to_int ''a'' IPC_ERR_NONE = (0, IPC_ERR_ARG_TOO_LARGE)
   \<and> ipc_process_cmd (''change_ws'' @ [CHR 0x00] @ ''a'' @ [CHR 0x00]) 12
       = Some (IPC_ERR_ARG_TOO_LARGE, [Call_func ''change_ws'' (Arg_i 0)])
   \<and> err_code IPC_ERR_ARG_TOO_LARGE = 7 \<and> err_code IPC_ERR_ARG_NOT_INT = 6"
  by (simp add: ipc_arg_to_int_def ipc_process_cmd_def ipc_process_args_def commands_def
        mk_cmd_def mk_op_def c_char_def)

text \<open>No argument at all makes the parser set \<open>IPC_ERR_ARG_NOT_INT\<close>.\<close>

lemma ipc_arg_to_int_err:
  "snd (ipc_arg_to_int arg err) = err \<or> snd (ipc_arg_to_int arg err) = IPC_ERR_ARG_TOO_LARGE"
  by (auto simp: ipc_arg_to_int_def Let_def split: list.splits prod.splits if_splits)

lemma ipc_process_cmd_number:
  "ipc_process_cmd (''change_ws'' @ [CHR 0x00] @ ''-12'' @ [CHR 0x00]) 14
     = Some (IPC_ERR_NONE, [Call_func ''change_ws'' (Arg_i (- 12))])"
  by (simp add: ipc_arg_to_int_def ipc_process_cmd_def ipc_process_args_def commands_def
        mk_cmd_def mk_op_def c_char_def)

section \<open>Pasting from an empty delete register (C10)\<close>

text \<open>
  C10: when the delete register is empty, \<open>paste\<close> returns and changes nothing: the
  lists, counts and focus pointers of all workspaces and the size of the register
  are as before, since the whole state is.
\<close>

theorem paste_empty_register: "st_size (del_reg s) = 0 \<Longrightarrow> paste cfg s = Some s"
  by (simp add: paste_def stack_pop_def)

theorem paste_empty_register_witness:
  "st_size (del_reg ex_init) = 0 \<and> paste ex_cfg ex_init = Some ex_init"
  using paste_empty_register [of ex_init ex_cfg] by (simp add: ex_init_def)

section \<open>Lists in the store\<close>

lemma clist_unique: "clist h p xs \<Longrightarrow> clist h p ys \<Longrightarrow> xs = ys"
proof (induction xs arbitrary: p ys)
  case Nil then show ?case by (cases ys) auto
next
  case (Cons a as) then show ?case by (cases ys) (auto split: option.splits)
qed

lemma clist_append: "clist h p (xs @ ys) \<Longrightarrow> \<exists>q. clist h q ys"
  by (induction xs arbitrary: p) (auto split: option.splits)

lemma clist_distinct: "clist h p xs \<Longrightarrow> distinct xs"
proof (induction xs arbitrary: p)
  case Nil then show ?case by simp
next
  case (Cons a as)
  then obtain c where c: "h a = Some c" "clist h (c_next c) as" by (auto split: option.splits)
  have "a \<notin> set as"
  proof
    assume "a \<in> set as"
    then obtain ys zs where as: "as = ys @ a # zs" by (auto simp: in_set_conv_decomp)
    from c as obtain q where "clist h q (a # zs)" using clist_append by blast
    then have "clist h (Some a) (a # zs)" by simp
    with c have "clist h (c_next c) zs" by simp
    with c(2) have "as = zs" by (rule clist_unique)
    with as show False by simp
  qed
  with Cons.IH c show ?case by simp
qed

lemma clist_Some: "clist h (Some a) xs \<longleftrightarrow> (\<exists>c as. xs = a # as \<and> h a = Some c \<and> clist h (c_next c) as)"
  by (cases xs) (auto split: option.splits)

lemma clist_None [simp]: "clist h None xs \<longleftrightarrow> xs = []"
  by (cases xs) auto

section \<open>The predecessor of a client (C8)\<close>

text \<open>The loop of \<open>prev_client\<close> on a list: it stops at the client before \<open>c\<close>, or at
  the last client when it does not meet \<open>c\<close>.\<close>

lemma prev_client_loop_last:
  "clist h (Some p) (p # xs) \<Longrightarrow> c \<notin> Some ` set xs \<Longrightarrow> prev_client_loop h c p = Some (last (p # xs))"
proof (induction xs arbitrary: p)
  case Nil
  then show ?case by (subst prev_client_loop.simps) (auto split: option.splits)
next
  case (Cons x xs)
  from Cons.prems obtain pc where pc: "h p = Some pc" "c_next pc = Some x" "clist h (Some x) (x # xs)"
    by (auto split: option.splits)
  from Cons.prems have "c \<noteq> Some x" "c \<notin> Some ` set xs" by auto
  with Cons.IH [OF pc(3)] pc show ?case
    by (subst prev_client_loop.simps) simp
qed

lemma prev_client_loop_pred:
  "clist h (Some p) (p # ys @ a # zs) \<Longrightarrow> a \<notin> set ys \<Longrightarrow>
   prev_client_loop h (Some a) p = Some (last (p # ys))"
proof (induction ys arbitrary: p)
  case Nil
  then show ?case by (subst prev_client_loop.simps) (auto split: option.splits)
next
  case (Cons y ys)
  from Cons.prems obtain pc where pc: "h p = Some pc" "c_next pc = Some y"
      "clist h (Some y) (y # ys @ a # zs)"
    by (auto split: option.splits)
  from Cons.prems have "a \<noteq> y" "a \<notin> set ys" by auto
  with Cons.IH [OF pc(3)] pc show ?case
    by (subst prev_client_loop.simps) simp
qed

lemma clist_pred:
  "clist h (Some p) (p # ys @ a # zs) \<Longrightarrow> \<exists>qc. h (last (p # ys)) = Some qc \<and> c_next qc = Some a"
proof (induction ys arbitrary: p)
  case Nil
  then show ?case by (auto split: option.splits)
next
  case (Cons y ys)
  from Cons.prems have "clist h (Some y) (y # ys @ a # zs)"
    by (auto split: option.splits)
  from Cons.IH [OF this] show ?case by simp
qed

text \<open>
  C8 says that \<open>prev_client\<close> returns NULL when \<open>c\<close> is the head of the list or not
  on it.  The source returns NULL only when \<open>c\<close> is NULL or the list has fewer than
  two clients; \<open>create_client\<close> and \<open>client_to_ws\<close> call \<open>prev_client\<close> with the
  head to get the last client.  As amended: on a list that ends, the result is NULL
  when \<open>c\<close> is NULL or the list has fewer than two clients; otherwise it is the
  client whose \<open>next\<close> is \<open>c\<close> when \<open>c\<close> is on the list after the head, and
  the last client of the list when \<open>c\<close> is the head or not on the list.
\<close>

theorem prev_client_on_list:
  assumes "clist (clients s) (head (wss s ws)) xs"
  shows "(c = None \<or> length xs < 2 \<longrightarrow> prev_client s c ws = Some None)
    \<and> (\<forall>a. c = Some a \<and> 2 \<le> length xs \<and> a \<in> set (tl xs) \<longrightarrow>
          (\<exists>q qc. prev_client s c ws = Some (Some q) \<and> q \<in> set xs
                  \<and> clients s q = Some qc \<and> c_next qc = Some a))
    \<and> (\<forall>a. c = Some a \<and> 2 \<le> length xs \<and> (a = hd xs \<or> a \<notin> set xs) \<longrightarrow>
          prev_client s c ws = Some (Some (last xs)))"
proof (intro conjI allI impI)
  assume "c = None \<or> length xs < 2"
  then show "prev_client s c ws = Some None"
  proof
    assume "c = None" then show ?thesis by (simp add: prev_client_def)
  next
    assume "length xs < 2"
    then consider "xs = []" | x where "xs = [x]"
      by (cases xs; cases "tl xs") auto
    then show ?thesis
      using assms by cases (auto simp: prev_client_def split: option.splits)
  qed
next
  fix a assume a: "c = Some a \<and> 2 \<le> length xs \<and> a \<in> set (tl xs)"
  then obtain p x rest where xs: "xs = p # x # rest" by (cases xs; cases "tl xs") auto
  with a have "a \<in> set (x # rest)" by simp
  then obtain ys zs where split: "x # rest = ys @ a # zs" "a \<notin> set ys"
    using split_list_first [of a "x # rest"] by blast
  from assms xs obtain pc where pc: "head (wss s ws) = Some p" "clients s p = Some pc"
      "c_next pc = Some x"
    by (auto split: option.splits)
  from assms xs split have l: "clist (clients s) (Some p) (p # ys @ a # zs)" using pc by simp
  have loop: "prev_client_loop (clients s) (Some a) p = Some (last (p # ys))"
    by (rule prev_client_loop_pred [OF l split(2)])
  from clist_pred [OF l] obtain qc where
    qc: "clients s (last (p # ys)) = Some qc" "c_next qc = Some a" by blast
  have "last (p # ys) \<in> set (p # ys)" by (rule last_in_set) simp
  also have "set (p # ys) \<subseteq> set xs" using xs split by auto
  finally have mem: "last (p # ys) \<in> set xs" .
  have "prev_client s c ws = Some (Some (last (p # ys)))"
    using loop pc a by (simp add: prev_client_def)
  with qc mem show "\<exists>q qc. prev_client s c ws = Some (Some q) \<and> q \<in> set xs
                  \<and> clients s q = Some qc \<and> c_next qc = Some a"
    by blast
next
  fix a assume a: "c = Some a \<and> 2 \<le> length xs \<and> (a = hd xs \<or> a \<notin> set xs)"
  then obtain p x rest where xs: "xs = p # x # rest" by (cases xs; cases "tl xs") auto
  from assms have "distinct xs" by (rule clist_distinct)
  with a xs have notin: "c \<notin> Some ` set (x # rest)" by auto
  from assms xs obtain pc where pc: "head (wss s ws) = Some p" "clients s p = Some pc"
      "c_next pc = Some x"
    by (auto split: option.splits)
  from assms xs pc have l: "clist (clients s) (Some p) (p # x # rest)" by simp
  have "prev_client_loop (clients s) c p = Some (last (p # x # rest))"
    by (rule prev_client_loop_last [OF l notin])
  with pc a xs show "prev_client s c ws = Some (Some (last xs))"
    by (simp add: prev_client_def)
qed

lemmas ex_defs2 = ex_list2_def ex_defs zero_client_def

theorem prev_client_on_list_witness:
  "clist (clients ex_list2) (head (wss ex_list2 1)) [1, 2]
   \<and> prev_client ex_list2 (Some 2) 1 = Some (Some 1)"
proof -
  have l: "clist (clients ex_list2) (head (wss ex_list2 1)) [1, 2]"
    by (simp add: ex_defs2)
  from prev_client_on_list [OF l, of "Some 2"] l show ?thesis
    by (auto simp: ex_defs2)
qed

text \<open>With the clients 1 and 2 on the list, the predecessor of the head 1 is
  reported as 2, and so is that of the address 7, which is not on the list.\<close>

theorem prev_client_head_counterexample:
  "head (wss ex_list2 1) = Some 1 \<and> prev_client ex_list2 (Some 1) 1 = Some (Some 2)
   \<and> win_list (clients ex_list2) (head (wss ex_list2 1)) = Some [42, 43]
   \<and> clients ex_list2 7 = None \<and> prev_client ex_list2 (Some 7) 1 = Some (Some 2)"
  by (simp add: ex_defs2 howm_defs howm_eval)

section \<open>The layouts return and keep the lists\<close>

text \<open>On a list that ends, every loop of the layout engine returns, and the store it
  leaves has the same \<open>next\<close> pointers.\<close>

lemma same_links_refl [simp]: "same_links h h"
  by (simp add: same_links_def)

lemma same_links_trans: "same_links h h1 \<Longrightarrow> same_links h1 h2 \<Longrightarrow> same_links h h2"
  by (simp add: same_links_def)

lemma same_links_upd:
  "h a = Some c \<Longrightarrow> c_next c' = c_next c \<Longrightarrow> same_links h (h(a \<mapsto> c'))"
  by (simp add: same_links_def)

lemma same_links_lookup:
  "same_links h h' \<Longrightarrow> h a = Some c \<Longrightarrow> \<exists>c'. h' a = Some c' \<and> c_next c' = c_next c"
  unfolding same_links_def by (metis map_option_eq_Some option.simps(9))

lemma same_links_None: "same_links h h' \<Longrightarrow> h a = None \<Longrightarrow> h' a = None"
  unfolding same_links_def by (metis option.map_disc_iff)

lemma same_links_sym: "same_links h h' \<Longrightarrow> same_links h' h"
  by (simp add: same_links_def)

lemma clist_same_links: "same_links h h' \<Longrightarrow> clist h p xs \<Longrightarrow> clist h' p xs"
proof (induction xs arbitrary: p)
  case Nil then show ?case by simp
next
  case (Cons a as)
  then obtain c where c: "p = Some a" "h a = Some c" "clist h (c_next c) as"
    by (auto split: option.splits)
  from same_links_lookup [OF Cons.prems(1) c(2)] obtain c' where
    "h' a = Some c'" "c_next c' = c_next c" by blast
  with Cons.IH [OF Cons.prems(1) c(3)] c show ?case by simp
qed

lemma walk_clist: "clist h p xs \<Longrightarrow> walk h p n = Some (n + length xs)"
proof (induction xs arbitrary: p n)
  case Nil then show ?case by (simp add: walk_eval)
next
  case (Cons a as)
  then obtain c where c: "p = Some a" "h a = Some c" "clist h (c_next c) as"
    by (auto split: option.splits)
  with Cons.IH [OF c(3)] show ?case by (simp add: walk_eval)
qed

lemma non_tff_count_clist:
  "clist h p xs \<Longrightarrow> \<exists>m. non_tff_count_loop h p n = Some m \<and> n \<le> m"
proof (induction xs arbitrary: p n)
  case Nil then show ?case by (simp add: non_tff_count_loop_eval)
next
  case (Cons a as)
  then obtain c where c: "p = Some a" "h a = Some c" "clist h (c_next c) as"
    by (auto split: option.splits)
  from Cons.IH [OF c(3), of "if \<not> FFT c then n + 1 else n"] c show ?case
    by (auto simp: non_tff_count_loop_eval split: if_splits)
qed

lemma first_non_tff_clist:
  "clist h p xs \<Longrightarrow>
   first_non_tff_loop h p = Some None
   \<or> (\<exists>a c zs. first_non_tff_loop h p = Some (Some a) \<and> h a = Some c \<and> clist h (c_next c) zs)"
proof (induction xs arbitrary: p)
  case Nil then show ?case by (simp add: first_non_tff_loop_eval)
next
  case (Cons a as)
  then obtain c where c: "p = Some a" "h a = Some c" "clist h (c_next c) as"
    by (auto split: option.splits)
  show ?case
  proof (cases "FFT c")
    case True
    with Cons.IH [OF c(3)] c show ?thesis by (simp add: first_non_tff_loop_eval)
  next
    case False
    with c show ?thesis by (auto simp: first_non_tff_loop_eval)
  qed
qed

lemma first_non_tff_exists:
  "clist h p xs \<Longrightarrow> non_tff_count_loop h p n = Some m \<Longrightarrow> n < m \<Longrightarrow>
   first_non_tff_loop h p \<noteq> Some None"
proof (induction xs arbitrary: p n)
  case Nil then show ?case by (simp add: non_tff_count_loop_eval)
next
  case (Cons a as)
  then obtain c where c: "p = Some a" "h a = Some c" "clist h (c_next c) as"
    by (auto split: option.splits)
  show ?case
  proof (cases "FFT c")
    case True
    with Cons.prems c have "non_tff_count_loop h (c_next c) n = Some m"
      by (simp add: non_tff_count_loop_eval)
    from Cons.IH [OF c(3) this Cons.prems(3)] True c show ?thesis
      by (simp add: first_non_tff_loop_eval)
  next
    case False
    with c show ?thesis by (simp add: first_non_tff_loop_eval)
  qed
qed

lemma zoom_loop_clist:
  "clist h p xs \<Longrightarrow> \<exists>h'. zoom_loop y w ht h p = Some h' \<and> same_links h h'"
proof (induction xs arbitrary: p h)
  case Nil then show ?case by (simp add: zoom_loop_eval)
next
  case (Cons a as)
  then obtain c where c: "p = Some a" "h a = Some c" "clist h (c_next c) as"
    by (auto split: option.splits)
  define h1 where "h1 = (if \<not> FFT c then h(a \<mapsto> change_client_geom c 0 y w ht) else h)"
  have sl: "same_links h h1"
    using c by (auto simp: h1_def change_client_geom_def intro: same_links_upd)
  from clist_same_links [OF sl c(3)] Cons.IH obtain h' where
    "zoom_loop y w ht h1 (c_next c) = Some h'" "same_links h1 h'" by blast
  with sl c show ?case
    by (auto simp: zoom_loop_eval h1_def intro: same_links_trans)
qed

lemma stack_loop_clist:
  "clist h p xs \<Longrightarrow>
   \<exists>h'. stack_loop vert ms client_span sw sh bh h p client_x client_y = Some h' \<and> same_links h h'"
proof (induction xs arbitrary: p h client_x client_y)
  case Nil then show ?case by (simp add: stack_loop_eval)
next
  case (Cons a as)
  then obtain c where c: "p = Some a" "h a = Some c" "clist h (c_next c) as"
    by (auto split: option.splits)
  show ?case
  proof (cases "FFT c")
    case True
    with Cons.IH [OF c(3)] c show ?thesis by (simp add: stack_loop_eval)
  next
    case False
    define c' where "c' = (if vert then change_client_geom c ms client_y (sw - ms) client_span
                          else change_client_geom c client_x ms client_span (sh - bh - ms))"
    have sl: "same_links h (h(a \<mapsto> c'))"
      using c by (auto simp: c'_def change_client_geom_def intro: same_links_upd)
    from Cons.IH [OF clist_same_links [OF sl c(3)]] obtain h' where
      "stack_loop vert ms client_span sw sh bh (h(a \<mapsto> c')) (c_next c)
         (if vert then client_x else client_x + client_span)
         (if vert then client_y + client_span else client_y) = Some h'"
      "same_links (h(a \<mapsto> c')) h'" by blast
    with sl c False show ?thesis
      by (auto simp: stack_loop_eval c'_def intro: same_links_trans split: if_splits)
  qed
qed



lemma grid_cols_ge: "c \<le> grid_cols n c"
proof (induction n c rule: grid_cols.induct)
  case (1 n cols)
  show ?case
  proof (cases "cols \<le> n div 2 \<and> \<not> cols * cols \<ge> n")
    case True
    with "1.IH" have "cols + 1 \<le> grid_cols n (cols + 1)" by simp
    with True show ?thesis by (subst grid_cols.simps) simp
  next
    case False
    then show ?thesis by (subst grid_cols.simps) auto
  qed
qed

lemma grid_cols_le: "c \<le> n div 2 + 1 \<Longrightarrow> grid_cols n c \<le> n div 2 + 1"
proof (induction n c rule: grid_cols.induct)
  case (1 n cols)
  show ?case
  proof (cases "cols \<le> n div 2 \<and> \<not> cols * cols \<ge> n")
    case True
    with "1.IH" have "grid_cols n (cols + 1) \<le> n div 2 + 1" by simp
    with True show ?thesis by (subst grid_cols.simps) simp
  next
    case False
    with "1.prems" show ?thesis by (subst grid_cols.simps) auto
  qed
qed

lemma grid_cols_bounds:
  assumes "2 \<le> n"
  shows "1 \<le> grid_cols n 0" and "grid_cols n 0 \<le> n"
proof -
  from assms have "grid_cols n 0 = grid_cols n 1"
    by (subst grid_cols.simps) simp
  with grid_cols_ge [of 1 n] show "1 \<le> grid_cols n 0" by simp
  from assms grid_cols_le [of 0 n] show "grid_cols n 0 \<le> n" by simp
qed

lemma grid_loop_clist:
  "clist h p xs \<Longrightarrow> 1 \<le> rows \<Longrightarrow> 0 \<le> n \<Longrightarrow> 0 < cols \<Longrightarrow>
   \<exists>h'. grid_loop n cols col_w client_y col_h h p i rows row_cnt col_cnt = Some h'
        \<and> same_links h h'"
proof (induction xs arbitrary: p h i rows row_cnt col_cnt)
  case Nil then show ?case by (subst grid_loop.simps) simp
next
  case (Cons a as)
  then obtain c where c: "p = Some a" "h a = Some c" "clist h (c_next c) as"
    by (auto split: option.splits)
  show ?case
  proof (cases "FFT c")
    case True
    from Cons.IH [OF c(3) Cons.prems(2-4)] obtain h' where
      "grid_loop n cols col_w client_y col_h h (c_next c) i rows row_cnt col_cnt = Some h'"
      "same_links h h'" by blast
    with True c show ?thesis by (subst grid_loop.simps) simp
  next
    case False
    define rows' where "rows' = (if cols - (n mod cols) < ((i + 1) div rows) + 1
                                 then n div cols + 1 else rows)"
    have "0 \<le> n div cols" using Cons.prems by (simp add: pos_imp_zdiv_nonneg_iff)
    then have r: "1 \<le> rows'" using Cons.prems by (simp add: rows'_def)
    define c' where "c' = change_client_geom c
                                 (word_of_int (col_cnt * uint col_w))
                                 (word_of_int (uint client_y + (row_cnt * uint col_h) div rows'))
                                 col_w
                                 (word_of_int (uint col_h div rows'))"
    have sl: "same_links h (h(a \<mapsto> c'))"
      using c by (auto simp: c'_def change_client_geom_def intro: same_links_upd)
    from Cons.IH [OF clist_same_links [OF sl c(3)] r Cons.prems(3,4)] obtain h' where
      "grid_loop n cols col_w client_y col_h (h(a \<mapsto> c')) (c_next c) (i + 1) rows'
         (if row_cnt + 1 \<ge> rows' then 0 else row_cnt + 1)
         (if row_cnt + 1 \<ge> rows' then col_cnt + 1 else col_cnt) = Some h'"
      "same_links (h(a \<mapsto> c')) h'" by blast
    with sl c False r Cons.prems(2) show ?thesis
      by (subst grid_loop.simps)
         (auto simp: Let_def c'_def rows'_def intro: same_links_trans split: if_splits)
  qed
qed




lemma draw_clients_ok:
  "clist (clients s) (head (wss s (cw s))) xs \<Longrightarrow> draw_clients s = Some s"
  by (simp add: draw_clients_def walk_clist)

lemma zoom_ok:
  assumes "clist (clients s) (head (wss s (cw s))) xs" and "head (wss s (cw s)) \<noteq> None"
  shows "\<exists>h'. zoom cfg s = Some (s\<lparr>clients := h'\<rparr>) \<and> same_links (clients s) h'"
proof -
  from assms obtain a c where "head (wss s (cw s)) = Some a" "clients s a = Some c"
    by (cases xs) (auto split: option.splits)
  then have v: "valid s (head (wss s (cw s))) = Some ()"
    by (simp add: valid_def deref_def)
  from zoom_loop_clist [OF assms(1)] obtain h' where
    h': "zoom_loop (if BAR_BOTTOM cfg then 0 else bar_height (wss s (cw s))) (screen_width s)
           (screen_height s - bar_height (wss s (cw s))) (clients s) (head (wss s (cw s)))
         = Some h'" "same_links (clients s) h'"
    by blast
  have "draw_clients (s\<lparr>clients := h'\<rparr>) = Some (s\<lparr>clients := h'\<rparr>)"
    using clist_same_links [OF h'(2) assms(1)] by (intro draw_clients_ok [where xs = xs]) simp
  with v h' show ?thesis by (auto simp: zoom_def Let_def)
qed

lemma grid_ok:
  assumes "clist (clients s) (head (wss s (cw s))) xs" and "head (wss s (cw s)) \<noteq> None"
  shows "\<exists>h'. grid cfg s = Some (s\<lparr>clients := h'\<rparr>) \<and> same_links (clients s) h'"
proof -
  from non_tff_count_clist [OF assms(1), of 0] obtain n where
    n: "get_non_tff_count s = Some n" "0 \<le> n"
    by (auto simp: get_non_tff_count_def)
  show ?thesis
  proof (cases "n \<le> 1")
    case True
    with n zoom_ok [OF assms] show ?thesis by (simp add: grid_def Let_def)
  next
    case False
    then have n2: "2 \<le> n" by simp
    define cols where "cols = grid_cols n 0"
    from grid_cols_bounds [OF n2] have cols: "1 \<le> cols" "cols \<le> n" by (simp_all add: cols_def)
    then have rows: "1 \<le> n div cols"
      using zdiv_mono1 [of cols n cols] by simp
    from grid_loop_clist [OF assms(1) rows n(2), of cols] cols obtain h' where
      h': "grid_loop n cols (word_of_int (uint (screen_width s) div cols))
             (if BAR_BOTTOM cfg then 0 else bar_height (wss s (cw s)))
             (screen_height s - bar_height (wss s (cw s))) (clients s) (head (wss s (cw s)))
             (- 1) (n div cols) 0 0 = Some h'" "same_links (clients s) h'"
      by force
    have "draw_clients (s\<lparr>clients := h'\<rparr>) = Some (s\<lparr>clients := h'\<rparr>)"
      using clist_same_links [OF h'(2) assms(1)] by (intro draw_clients_ok [where xs = xs]) simp
    with n False cols h' show ?thesis
      by (auto simp: grid_def Let_def cols_def)
  qed
qed




text \<open>The product of a 16-bit length and a ratio between 0 and 1 rounds to a value
  that \<open>uint16_t\<close> holds.\<close>

lemma round_even_le: "x \<le> of_int M \<Longrightarrow> round_even x \<le> M"
proof -
  assume a: "x \<le> of_int M"
  then have f: "\<lfloor>x\<rfloor> \<le> M" by (simp add: floor_le_iff)
  show ?thesis
  proof (cases "\<lfloor>x\<rfloor> = M")
    case True
    with a have "x - of_int \<lfloor>x\<rfloor> \<le> 0" by simp
    then have "x - of_int \<lfloor>x\<rfloor> < 1 / 2" by simp
    with True show ?thesis by (simp add: round_even_def Let_def)
  next
    case False
    with f have "\<lfloor>x\<rfloor> + 1 \<le> M" by simp
    with f show ?thesis by (simp add: round_even_def Let_def)
  qed
qed

lemma round_even_nonneg: "0 \<le> x \<Longrightarrow> 0 \<le> round_even x"
  by (simp add: round_even_def Let_def)

lemma ilog2_le: "0 < q \<Longrightarrow> q < 2 ^ n \<Longrightarrow> ilog2 q \<le> int n"
proof (cases "1 \<le> q")
  case True
  assume q: "q < 2 ^ n"
  have "n \<noteq> 0" using True q by (cases n) auto
  have "\<lfloor>q\<rfloor> < 2 ^ n" using q by (simp add: floor_less_iff)
  then have "nat \<lfloor>q\<rfloor> < 2 ^ n" using True by (simp add: nat_less_iff)
  then have "floorlog 2 (nat \<lfloor>q\<rfloor>) \<le> n" by (intro floorlog_leI) simp_all
  then show ?thesis using True by (simp add: ilog2_def)
next
  case False
  assume "0 < q"
  with False show ?thesis by (simp add: ilog2_def)
qed

lemma f32_round_range:
  assumes "0 \<le> q" and "q \<le> 65535"
  shows "0 \<le> f32_round q \<and> f32_round q \<le> 65535"
proof (cases "q = 0")
  case True
  then show ?thesis by (simp add: f32_round_def)
next
  case False
  with assms have q: "0 < q" by simp
  from assms(2) have "q < 2 ^ 16" by simp
  from ilog2_le [OF q this] have e: "max (ilog2 q) (- 126) - 23 < 0" by simp
  define k where "k = nat (- (max (ilog2 q) (- 126) - 23))"
  have ulp: "pow2 (max (ilog2 q) (- 126) - 23) = 1 / 2 ^ k"
    using e by (simp add: pow2_def k_def)
  have r: "f32_round q = of_int (round_even (q * 2 ^ k)) / 2 ^ k"
    using q ulp by (simp add: f32_round_def Let_def)
  have "q * 2 ^ k \<le> of_int (65535 * 2 ^ k)" using assms(2) by simp
  then have "round_even (q * 2 ^ k) \<le> 65535 * 2 ^ k" by (rule round_even_le)
  then have "(of_int (round_even (q * 2 ^ k)) :: rat) \<le> of_int (65535 * 2 ^ k)"
    by (simp only: of_int_le_iff)
  then have up: "of_int (round_even (q * 2 ^ k)) / 2 ^ k \<le> (65535 :: rat)"
    by (simp add: divide_le_eq)
  have "0 \<le> round_even (q * 2 ^ k)" using q by (intro round_even_nonneg) simp
  then have "(0 :: rat) \<le> of_int (round_even (q * 2 ^ k)) / 2 ^ k" by simp
  with up r show ?thesis by simp
qed

lemma f32_to_u16_total:
  assumes "0 \<le> r" and "r \<le> 1"
  shows "\<exists>m. f32_to_u16 (f32_round (of_int (uint (x :: 16 word)) * r)) = Some m"
proof -
  define n where "n = uint x"
  have x: "0 \<le> n" "n \<le> 65535" using uint_bounded [of x] by (simp_all add: n_def)
  then have n: "(0 :: rat) \<le> of_int n" "(of_int n :: rat) \<le> 65535"
    by simp_all
  with assms have "of_int n * r \<le> 65535 * 1" by (intro mult_mono) simp_all
  moreover have "0 \<le> of_int n * r" using assms n by simp
  ultimately have "0 \<le> f32_round (of_int n * r) \<and> f32_round (of_int n * r) \<le> 65535"
    by (intro f32_round_range) simp_all
  then have "0 \<le> \<lfloor>f32_round (of_int n * r)\<rfloor> \<and> \<lfloor>f32_round (of_int n * r)\<rfloor> < 65536"
    by (simp add: floor_less_iff)
  then show ?thesis unfolding n_def [symmetric] by (simp add: f32_to_u16_def Let_def)
qed

lemma stack_ok:
  assumes "clist (clients s) (head (wss s (cw s))) xs" and "head (wss s (cw s)) \<noteq> None"
    and "0 \<le> master_ratio (wss s (cw s))" and "master_ratio (wss s (cw s)) \<le> 1"
  shows "\<exists>h'. stack cfg s = Some (s\<lparr>clients := h'\<rparr>) \<and> same_links (clients s) h'"
proof -
  from non_tff_count_clist [OF assms(1), of 0] obtain n where
    n: "non_tff_count_loop (clients s) (head (wss s (cw s))) 0 = Some n" "0 \<le> n"
    by auto
  from first_non_tff_clist [OF assms(1)] obtain c where
    c: "first_non_tff_loop (clients s) (head (wss s (cw s))) = Some c"
    by auto
  let ?vert = "layout (wss s (cw s)) = VSTACK"
  from f32_to_u16_total [OF assms(3,4)] obtain ms where
    ms: "f32_to_u16 (f32_round (of_int (uint (if ?vert then screen_width s
        else screen_height s - bar_height (wss s (cw s)))) * master_ratio (wss s (cw s)))) = Some ms"
    by blast
  show ?thesis
  proof (cases "n \<le> 1")
    case True
    with n c ms zoom_ok [OF assms(1,2)] show ?thesis
      by (simp add: stack_def Let_def get_non_tff_count_def get_first_non_tff_def)
  next
    case False
    then have "0 < n" by simp
    from first_non_tff_exists [OF assms(1) n(1) this] c first_non_tff_clist [OF assms(1)]
    obtain a cl zs where a: "c = Some a" "clients s a = Some cl"
        "clist (clients s) (c_next cl) zs"
      by auto
    let ?cy = "if BAR_BOTTOM cfg then 0 else bar_height (wss s (cw s))"
    let ?span = "if ?vert then screen_height s - bar_height (wss s (cw s)) else screen_width s"
    let ?f = "\<lambda>cl. if ?vert then change_client_geom cl 0 ?cy ms ?span
        else change_client_geom cl 0 ?cy ?span ms"
    let ?h1 = "(clients s)(a \<mapsto> ?f cl)"
    have nx: "c_next (?f cl) = c_next cl" by (simp add: change_client_geom_def)
    have sl1: "same_links (clients s) ?h1"
      using a(2) nx by (rule same_links_upd)
    have u: "upd_client a ?f s = Some (s\<lparr>clients := ?h1\<rparr>)"
      using a by (simp add: upd_client_def)
    from stack_loop_clist [OF clist_same_links [OF sl1 a(3)]] obtain h' where
      h': "stack_loop ?vert ms (word_of_int (uint ?span div (n - 1))) (screen_width s)
             (screen_height s) (bar_height (wss s (cw s))) ?h1 (c_next cl) 0 ?cy = Some h'"
          "same_links ?h1 h'"
      by blast
    have sl: "same_links (clients s) h'" using sl1 h'(2) by (rule same_links_trans)
    have d: "draw_clients (s\<lparr>clients := h'\<rparr>) = Some (s\<lparr>clients := h'\<rparr>)"
      using clist_same_links [OF sl assms(1)] by (intro draw_clients_ok [where xs = xs]) simp
    have "stack cfg s = Some (s\<lparr>clients := h'\<rparr>)"
      unfolding stack_def Let_def get_non_tff_count_def get_first_non_tff_def
      using n c a False u h' d nx ms
      by (cases "layout (wss s (cw s)) = VSTACK"; cases "BAR_BOTTOM cfg"; simp)
    with sl show ?thesis by blast
  qed
qed

lemma arrange_windows_ok:
  assumes "clist (clients s) (head (wss s (cw s))) xs"
    and "0 \<le> layout (wss s (cw s))" and "layout (wss s (cw s)) < END_LAYOUT"
    and "0 \<le> master_ratio (wss s (cw s))" and "master_ratio (wss s (cw s)) \<le> 1"
  shows "\<exists>h'. arrange_windows cfg s = Some (s\<lparr>clients := h'\<rparr>) \<and> same_links (clients s) h'"
proof (cases "head (wss s (cw s))")
  case None
  have "s\<lparr>clients := clients s\<rparr> = s" by simp
  with None show ?thesis
    by (auto simp: arrange_windows_def intro!: exI [of _ "clients s"])
next
  case (Some a)
  with assms(1) obtain hc where hc: "clients s a = Some hc"
    by (cases xs) (auto split: option.splits)
  from Some have nn: "head (wss s (cw s)) \<noteq> None" by simp
  from assms(2,3) have "layout (wss s (cw s)) = GRID \<or> layout (wss s (cw s)) = ZOOM
      \<or> layout (wss s (cw s)) = HSTACK \<or> layout (wss s (cw s)) = VSTACK"
    by arith
  with zoom_ok [OF assms(1) nn, of cfg] grid_ok [OF assms(1) nn, of cfg]
    stack_ok [OF assms(1) nn assms(4,5), of cfg] Some hc
  show ?thesis
    by (auto simp: arrange_windows_def Let_def)
qed




lemma prev_client_loop_total:
  assumes "clist h (Some p) (p # xs)"
  shows "\<exists>q. prev_client_loop h c p = Some q"
proof (cases "c \<in> Some ` set xs")
  case True
  then obtain a where a: "c = Some a" "a \<in> set xs" by auto
  then obtain ys zs where "xs = ys @ a # zs" "a \<notin> set ys"
    using split_list_first [of a xs] by blast
  with assms prev_client_loop_pred [of h p ys a zs] a show ?thesis by auto
next
  case False
  with prev_client_loop_last [OF assms] show ?thesis by blast
qed

lemma prev_client_total:
  assumes "clist (clients s) (head (wss s w)) xs"
  shows "\<exists>p. prev_client s c w = Some p"
proof (cases "head (wss s w)")
  case None
  then show ?thesis by (simp add: prev_client_def)
next
  case (Some a)
  with assms obtain hc as where hc: "xs = a # as" "clients s a = Some hc" 
    by (cases xs) (auto split: option.splits)
  with assms Some have "clist (clients s) (Some a) (a # as)" by simp
  from prev_client_loop_total [OF this, of c] Some hc show ?thesis
    by (auto simp: prev_client_def)
qed

lemma update_focused_client_ok:
  assumes l: "clist (clients s) (head (wss s (cw s))) xs"
    and lay: "0 \<le> layout (wss s (cw s))" "layout (wss s (cw s)) < END_LAYOUT"
    and mr: "0 \<le> master_ratio (wss s (cw s))" "master_ratio (wss s (cw s)) \<le> 1"
    and c: "c \<noteq> None \<longrightarrow> deref s c \<noteq> None"
    and cur: "current (wss s (cw s)) \<noteq> None \<longrightarrow> deref s (current (wss s (cw s))) \<noteq> None"
  shows "\<exists>s'. update_focused_client cfg c s = Some s'
     \<and> same_links (clients s) (clients s') \<and> cw s' = cw s \<and> last_ws s' = last_ws s
     \<and> (\<forall>w. w \<noteq> cw s \<longrightarrow> wss s' w = wss s w)
     \<and> head (wss s' (cw s)) = head (wss s (cw s))
     \<and> layout (wss s' (cw s)) = layout (wss s (cw s))
     \<and> master_ratio (wss s' (cw s)) = master_ratio (wss s (cw s))
     \<and> (current (wss s' (cw s)) = None \<or> current (wss s' (cw s)) = c
         \<or> current (wss s' (cw s)) = current (wss s (cw s)))"
proof (cases "c = None \<or> head (wss s (cw s)) = None")
  case True
  then show ?thesis
    by (auto simp: update_focused_client_def upd_ws_def)
next
  case False
  let ?w = "wss s (cw s)"
  have "\<exists>g. (if c = prev_foc ?w then do {
                  let s' = upd_ws (cw s) (\<lambda>w. w\<lparr>current := prev_foc w\<rparr>) s;
                  p \<leftarrow> prev_client s' (current (wss s' (cw s'))) (cw s');
                  Some (upd_ws (cw s') (\<lambda>w. w\<lparr>prev_foc := p\<rparr>) s')
                }
                else if c \<noteq> current ?w then
                  Some (upd_ws (cw s) (\<lambda>w. w\<lparr>prev_foc := current w, current := c\<rparr>) s)
                else Some s) = Some (s\<lparr>wss := (wss s)(cw s := g)\<rparr>)
        \<and> head g = head ?w \<and> layout g = layout ?w \<and> master_ratio g = master_ratio ?w
        \<and> current g = c"
  proof (cases "c = prev_foc ?w")
    case True
    let ?s' = "upd_ws (cw s) (\<lambda>w. w\<lparr>current := prev_foc w\<rparr>) s"
    have "clist (clients ?s') (head (wss ?s' (cw s))) xs" using l by (simp add: upd_ws_def)
    from prev_client_total [OF this, of "current (wss ?s' (cw ?s'))"] obtain p where
      "prev_client ?s' (current (wss ?s' (cw ?s'))) (cw s) = Some p" by blast
    with True show ?thesis
      by (intro exI [of _ "?w\<lparr>current := prev_foc ?w, prev_foc := p\<rparr>"])
         (simp add: upd_ws_def Let_def)
  next
    case False
    show ?thesis
    proof (cases "c \<noteq> current ?w")
      case True
      with False show ?thesis
        by (intro exI [of _ "?w\<lparr>prev_foc := current ?w, current := c\<rparr>"])
           (simp add: upd_ws_def)
    next
      case cc: False
      have "s\<lparr>wss := (wss s)(cw s := ?w)\<rparr> = s" by simp
      with False cc show ?thesis
        by (intro exI [of _ ?w]) simp
    qed
  qed
  then obtain g where g: "(if c = prev_foc ?w then do {
                  let s' = upd_ws (cw s) (\<lambda>w. w\<lparr>current := prev_foc w\<rparr>) s;
                  p \<leftarrow> prev_client s' (current (wss s' (cw s'))) (cw s');
                  Some (upd_ws (cw s') (\<lambda>w. w\<lparr>prev_foc := p\<rparr>) s')
                }
                else if c \<noteq> current ?w then
                  Some (upd_ws (cw s) (\<lambda>w. w\<lparr>prev_foc := current w, current := c\<rparr>) s)
                else Some s) = Some (s\<lparr>wss := (wss s)(cw s := g)\<rparr>)"
    and gp: "head g = head ?w" "layout g = layout ?w" "current g = c"
      "master_ratio g = master_ratio ?w"
    by blast
  let ?s1 = "s\<lparr>wss := (wss s)(cw s := g)\<rparr>"
  have l1: "clist (clients ?s1) (head (wss ?s1 (cw ?s1))) xs" using l gp by simp
  have w1: "walk (clients ?s1) (head (wss ?s1 (cw ?s1))) 0 = Some (length xs)"
    using walk_clist [OF l1, of 0] by simp
  have v1: "valid ?s1 (current (wss ?s1 (cw ?s1))) = Some ()"
    using gp(3) c cur False by (auto simp: valid_def deref_def split: option.splits)
  from arrange_windows_ok [OF l1, of cfg] lay mr gp obtain h' where
    h': "arrange_windows cfg ?s1 = Some (?s1\<lparr>clients := h'\<rparr>)" "same_links (clients s) h'"
    by auto
  have "update_focused_client cfg c s = Some (?s1\<lparr>clients := h'\<rparr>)"
    using False g w1 v1 h'(1) unfolding update_focused_client_def
    by (simp del: not_None_eq)
  with h'(2) gp show ?thesis by auto
qed

section \<open>Switching workspaces (C7)\<close>

lemma ws_ok_preserved:
  assumes "ws_ok s w" and sl: "same_links (clients s) (clients s')"
    and "head (wss s' w) = head (wss s w)" and "layout (wss s' w) = layout (wss s w)"
    and "current (wss s' w) = None \<or> current (wss s' w) = current (wss s w)"
    and "master_ratio (wss s' w) = master_ratio (wss s w)"
  shows "ws_ok s' w"
proof -
  from assms(1) obtain xs where xs: "clist (clients s) (head (wss s w)) xs"
    by (auto simp: ws_ok_def)
  have "clist (clients s') (head (wss s' w)) xs"
    using clist_same_links [OF sl xs] assms(3) by simp
  moreover have "current (wss s' w) \<noteq> None \<longrightarrow> deref s' (current (wss s' w)) \<noteq> None"
  proof
    assume nn: "current (wss s' w) \<noteq> None"
    with assms(5) have eq: "current (wss s' w) = current (wss s w)" by simp
    with nn assms(1) obtain a c where "current (wss s w) = Some a" "clients s a = Some c"
      by (auto simp: ws_ok_def deref_def split: option.splits)
    with same_links_lookup [OF sl this(2)] eq show "deref s' (current (wss s' w)) \<noteq> None"
      by (auto simp: deref_def)
  qed
  moreover have "0 \<le> layout (wss s' w) \<and> layout (wss s' w) < END_LAYOUT
      \<and> 0 \<le> master_ratio (wss s' w) \<and> master_ratio (wss s' w) \<le> 1"
    using assms(1,4,6) by (simp add: ws_ok_def)
  ultimately show ?thesis unfolding ws_ok_def by blast
qed

text \<open>With an index in the array and a state in order, \<open>change_ws\<close> returns a state
  in order.\<close>

lemma change_ws_ok:
  assumes ok: "howm_ok cfg s" and ia: "0 \<le> i" "i \<le> WORKSPACES cfg"
  shows "\<exists>s'. change_ws cfg i s = Some s' \<and> howm_ok cfg s'
     \<and> (if i = 0 \<or> i = cw s then s' = s else cw s' = i \<and> last_ws s' = cw s)"
proof (cases "i = 0 \<or> i = cw s")
  case True
  with ok ia show ?thesis by (auto simp: change_ws_def ws_idx_def)
next
  case False
  with ia have i: "1 \<le> i" "i \<le> WORKSPACES cfg" "i \<noteq> cw s" by auto
  from ok have cwr: "1 \<le> cw s" "cw s \<le> WORKSPACES cfg"
    and all: "\<And>w. 1 \<le> w \<Longrightarrow> w \<le> WORKSPACES cfg \<Longrightarrow> ws_ok s w"
    by (auto simp: howm_ok_def)
  from all [OF i(1,2)] obtain xi where xi: "clist (clients s) (head (wss s i)) xi"
    and cur: "current (wss s i) \<noteq> None \<longrightarrow> deref s (current (wss s i)) \<noteq> None"
    and lay: "0 \<le> layout (wss s i)" "layout (wss s i) < END_LAYOUT"
    and mr: "0 \<le> master_ratio (wss s i)" "master_ratio (wss s i) \<le> 1"
    by (auto simp: ws_ok_def)
  from all [OF cwr] obtain xc where xc: "clist (clients s) (head (wss s (cw s))) xc"
    by (auto simp: ws_ok_def)
  let ?s2 = "s\<lparr>last_ws := cw s, cw := i\<rparr>"
  have l2: "clist (clients ?s2) (head (wss ?s2 (cw ?s2))) xi" using xi by simp
  have d2: "deref ?s2 = deref s" by (rule ext) (simp add: deref_def split: option.splits)
  from update_focused_client_ok [OF l2, of "current (wss ?s2 (cw ?s2))" cfg] lay mr cur d2
  obtain s' where s': "update_focused_client cfg (current (wss s i)) ?s2 = Some s'"
      "same_links (clients s) (clients s')" "cw s' = i" "last_ws s' = cw s"
      "\<And>w. w \<noteq> i \<Longrightarrow> wss s' w = wss s w"
      "head (wss s' i) = head (wss s i)" "layout (wss s' i) = layout (wss s i)"
      "current (wss s' i) = None \<or> current (wss s' i) = current (wss s i)"
      "master_ratio (wss s' i) = master_ratio (wss s i)"
    by auto
  have c: "change_ws cfg i s = Some s'"
    using i walk_clist [OF xi, of 0] walk_clist [OF xc, of 0] s'(1)
    by (simp add: change_ws_def ws_idx_def)
  have "ws_ok s' w" if w: "1 \<le> w" "w \<le> WORKSPACES cfg" for w
  proof (cases "w = i")
    case True
    with all [OF w] s'(2,6,7,8,9) show ?thesis by (intro ws_ok_preserved [of s w s']) auto
  next
    case False
    with all [OF w] s'(2) s'(5) [OF False] show ?thesis
      by (intro ws_ok_preserved [of s w s']) auto
  qed
  with s'(3,4) i have "howm_ok cfg s'" by (simp add: howm_ok_def)
  with c False s'(3,4) show ?thesis by simp
qed

text \<open>
  What holds of \<open>change_ws\<close> in a state in order: with the index of the current
  workspace, or with 0, it returns the state as it is; and for two distinct
  workspaces \<open>a\<close> and \<open>b\<close> the three calls \<open>change_ws a\<close>, \<open>change_ws b\<close>,
  \<open>change_ws a\<close> return and leave \<open>last_ws = b\<close> and \<open>cw = a\<close>.
\<close>

lemma change_ws_in_order:
  assumes "howm_ok cfg s"
  shows "(i = cw s \<or> i = 0 \<longrightarrow> change_ws cfg i s = Some s)
    \<and> (1 \<le> a \<and> a \<le> WORKSPACES cfg \<and> 1 \<le> b \<and> b \<le> WORKSPACES cfg \<and> a \<noteq> b \<longrightarrow>
        (\<exists>s1 s2 s3. change_ws cfg a s = Some s1 \<and> change_ws cfg b s1 = Some s2
           \<and> change_ws cfg a s2 = Some s3 \<and> last_ws s3 = b \<and> cw s3 = a))"
proof (intro conjI impI)
  assume "i = cw s \<or> i = 0"
  with assms show "change_ws cfg i s = Some s"
    by (auto simp: change_ws_def ws_idx_def howm_ok_def)
next
  assume r: "1 \<le> a \<and> a \<le> WORKSPACES cfg \<and> 1 \<le> b \<and> b \<le> WORKSPACES cfg \<and> a \<noteq> b"
  from change_ws_ok [OF assms, of a] obtain s1 where
    s1: "change_ws cfg a s = Some s1" "howm_ok cfg s1" "cw s1 = a"
    using r by (auto split: if_splits)
  from change_ws_ok [OF s1(2), of b] obtain s2 where
    s2: "change_ws cfg b s1 = Some s2" "howm_ok cfg s2" "cw s2 = b"
    using r s1(3) by (auto split: if_splits)
  from change_ws_ok [OF s2(2), of a] obtain s3 where
    s3: "change_ws cfg a s2 = Some s3" "cw s3 = a" "last_ws s3 = b"
    using r s2(3) by (auto split: if_splits)
  with s1 s2 show "\<exists>s1 s2 s3. change_ws cfg a s = Some s1 \<and> change_ws cfg b s1 = Some s2
           \<and> change_ws cfg a s2 = Some s3 \<and> last_ws s3 = b \<and> cw s3 = a"
    by blast
qed

lemma howm_ok_ex_list2: "howm_ok ex_cfg ex_list2"
proof -
  have "\<exists>xs. clist (clients ex_list2) (head (wss ex_list2 1)) xs"
    by (rule exI [of _ "[1, 2]"]) (simp add: ex_list2_def ex_defs zero_client_def)
  moreover have "\<exists>xs. clist (clients ex_list2) (head (wss ex_list2 w)) xs" if "w \<noteq> 1" for w
    using that by (simp add: ex_list2_def ex_defs)
  ultimately have "\<exists>xs. clist (clients ex_list2) (head (wss ex_list2 w)) xs" for w
    by (cases "w = 1") auto
  then show ?thesis
    by (simp add: howm_ok_def ws_ok_def)
       (simp add: ex_list2_def ex_defs deref_def)
qed

lemma change_ws_in_order_ex:
  "change_ws ex_cfg 1 ex_list2 = Some ex_list2
   \<and> (\<exists>s1 s2 s3. change_ws ex_cfg 2 ex_list2 = Some s1 \<and> change_ws ex_cfg 3 s1 = Some s2
           \<and> change_ws ex_cfg 2 s2 = Some s3 \<and> last_ws s3 = 3 \<and> cw s3 = 2)"
  using change_ws_in_order [OF howm_ok_ex_list2, of 1 2 3]
  by (simp add: ex_list2_def ex_defs)

text \<open>
  Not every state that howm reaches is in order.  \<open>remove_client\<close> hands the new
  \<open>current\<close> of the workspace of the removed client to \<open>update_focused_client\<close>,
  which stores it in the current workspace.  After windows 43 and 44 of workspace 2
  are destroyed while workspace 1 is shown, \<open>current\<close> of workspace 1 is the
  client of window 43, which has been freed, and switching to workspace 2 and back
  reads it.
\<close>

lemma change_ws_stale_current:
  "focus_after ex_stale 1 = Some (Some 2, Some 1) \<and> live_after ex_stale 2 = Some False
   \<and> windows_after ex_stale 1 = Some [42]
   \<and> (ex_stale \<bind> change_ws ex_cfg 2 \<bind> change_ws ex_cfg 1) = None"
  by (simp add: ex_stale_def live_after_def howm_defs ex_defs howm_eval upto.simps)

text \<open>An index outside the array gives no result, whatever the state is.\<close>

lemma change_ws_outside_array:
  "i < 0 \<or> WORKSPACES cfg < i \<Longrightarrow> change_ws cfg i s = None"
  by (auto simp: change_ws_def ws_idx_def)

text \<open>
  C7 says that \<open>change_ws\<close> with an index out of range leaves the whole state as it
  is.  The source reads \<open>wss[arg->i].head\<close> before it tests the range, so a call
  with an index outside the array reads outside \<open>wss\<close> and has no defined result:
  at start-up, with three workspaces, neither \<open>change_ws 99\<close> (the largest
  argument that the socket accepts) nor \<open>change_ws (-1)\<close> returns the state.
\<close>

theorem change_ws_out_of_range_reads_wss:
  "change_ws ex_cfg 99 ex_init = None \<and> change_ws ex_cfg (- 1) ex_init = None"
  by (simp add: change_ws_def ws_idx_def ex_cfg_def)

section \<open>Three clients in the vstack layout (C4)\<close>

text \<open>Half of 1920 needs no rounding.  With the \<open>float\<close> nearest to 0.7 the
  product is rounded up to 1344, where the exact product has the integer part 1343.\<close>

lemma f32_nearest_to_0_7: "f32_round (7 / 10) = 11744051 / 16777216"
  by code_simp

lemma f32_0_7_of_1920:
  "f32_to_u16 (f32_round (1920 * (11744051 / 16777216))) = Some 1344
   \<and> \<lfloor>1920 * (11744051 / 16777216 :: rat)\<rfloor> = 1343"
  by code_simp

lemma f32_half_of_1920: "f32_to_u16 (f32_round (1920 * (1 / 2))) = Some 960"
  by (simp add: f32_to_u16_def f32_round_def ilog2_def pow2_def round_even_def Let_def
      compute_floorlog)

text \<open>
  C4: with exactly three clients A, B, C on the current list, none of them floating,
  fullscreen or transient, a screen of 1920 by 1080, a bar of 20 pixels at the top,
  the vstack layout and \<open>master_ratio\<close> 0.5, \<open>arrange_windows\<close> returns and stores
  the rectangle (0, 20, 960, 1060) in A, (960, 20, 960, 530) in B and
  (960, 550, 960, 530) in C.  (The gap plays no part in the stored rectangle; it and
  the border are subtracted when \<open>draw_clients\<close> configures the window.)
\<close>

theorem vstack_three_clients:
  assumes "head (wss s (cw s)) = Some a"
    and "clients s a = Some ca" and "c_next ca = Some b"
    and "clients s b = Some cb" and "c_next cb = Some c"
    and "clients s c = Some cc" and "c_next cc = None"
    and "\<not> FFT ca" and "\<not> FFT cb" and "\<not> FFT cc"
    and "screen_width s = 1920" and "screen_height s = 1080"
    and "bar_height (wss s (cw s)) = 20" and "\<not> BAR_BOTTOM cfg"
    and "layout (wss s (cw s)) = VSTACK" and "master_ratio (wss s (cw s)) = 1 / 2"
  shows "\<exists>s'. arrange_windows cfg s = Some s'
     \<and> client_rect s' a = Some (0, 20, 960, 1060)
     \<and> client_rect s' b = Some (960, 20, 960, 530)
     \<and> client_rect s' c = Some (960, 550, 960, 530)"
proof -
  have "clist (clients s) (Some a) [a, b, c]" using assms by simp
  then have "distinct [a, b, c]" by (rule clist_distinct)
  then have d: "a \<noteq> b" "a \<noteq> c" "b \<noteq> c" by auto
  have "f32_to_u16 (f32_round (1920 * master_ratio (wss s (cw s))))
      = f32_to_u16 (f32_round (1920 * (1 / 2)))" by (simp only: assms(16))
  also have "\<dots> = Some 960" by (rule f32_half_of_1920)
  finally have ms: "f32_to_u16 (f32_round (1920 * master_ratio (wss s (cw s)))) = Some 960" .
  show ?thesis
    using assms(1-15) d ms
    by (simp add: arrange_windows_def stack_def get_first_non_tff_def get_non_tff_count_def
          first_non_tff_loop_eval non_tff_count_loop_eval stack_loop_eval walk_eval
          draw_clients_def upd_client_def client_rect_def change_client_geom_def Let_def)
qed

theorem vstack_three_clients_witness:
  "(\<exists>s'. arrange_windows ex_cfg ex_list3 = Some s'
     \<and> client_rect s' 1 = Some (0, 20, 960, 1060)
     \<and> client_rect s' 2 = Some (960, 20, 960, 530)
     \<and> client_rect s' 3 = Some (960, 550, 960, 530))"
  using vstack_three_clients [of ex_list3 1 "zero_client\<lparr>c_next := Some 2, c_win := 42\<rparr>" 2
     "zero_client\<lparr>c_next := Some 3, c_win := 43\<rparr>" 3 "zero_client\<lparr>c_win := 44\<rparr>" ex_cfg]
  by (simp add: ex_list3_def ex_defs zero_client_def FFT_def)

section \<open>The key-press automaton on a sequence (C3)\<close>

lemmas fsa_defs = key_press_event_def call_operator_def call_cmd_def call_plain_def replay_def
  change_mode_def save_last_ocm_def save_last_cmd_def EQUALMODS_def CLEANMASK_def
  numlockmask_def XCB_MOD_MASK_LOCK_def XK_0_def XK_1_def XK_9_def
  op_calls_after_def state_after_def

lemmas ex_fsa_defs = ex_km_def ex_km_replay_def ex_km_digit_def ex_km_twice_def ex_key_def
  ex_fsa_def

lemma operators_loop_find:
  "operators_loop rs ke s =
     (case find (operator_match ke s) rs of
        None \<Rightarrow> s
      | Some r \<Rightarrow> s\<lparr>operator_func := Some (o_func r), cur_state := COUNT_STATE\<rparr>)"
  by (induction rs) (auto simp: operator_match_def)

lemma motions_loop_none:
  "filter (motion_match ke) rs = [] \<Longrightarrow> motions_loop rs ke s = Some s"
  by (induction rs) (auto simp: motion_match_def split: if_splits)

lemma motions_loop_single:
  assumes "filter (motion_match ke) rs = [r]" and "operator_func s = Some f"
  shows "\<exists>s'. motions_loop rs ke s = Some s' \<and> cur_state s' = OPERATOR_STATE \<and> cur_cnt s' = 1
     \<and> calls s' = calls s @ [Op_call f (m_type r) (cur_cnt s)]
     \<and> cur_mode s' = cur_mode s"
  using assms
proof (induction rs)
  case Nil then show ?case by simp
next
  case (Cons x rs)
  show ?case
  proof (cases "motion_match ke x")
    case True
    with Cons.prems have x: "x = r" and rest: "filter (motion_match ke) rs = []" by auto
    let ?s1 = "s\<lparr>calls := calls s @ [Op_call f (m_type r) (cur_cnt s)]\<rparr>"
    let ?s2 = "(save_last_ocm (operator_func ?s1) (m_type r) (cur_cnt ?s1) ?s1)
                 \<lparr>cur_state := OPERATOR_STATE, cur_cnt := 1\<rparr>"
    have "motions_loop (x # rs) ke s = motions_loop rs ke ?s2"
      using True x Cons.prems(2) by (simp add: motion_match_def call_operator_def)
    also have "\<dots> = Some ?s2" by (rule motions_loop_none [OF rest])
    finally show ?thesis by (simp add: save_last_ocm_def)
  next
    case False
    with Cons.prems have "filter (motion_match ke) rs = [r]" by simp
    moreover have "motions_loop (x # rs) ke s = motions_loop rs ke s"
      using False by (auto simp: motion_match_def)
    ultimately show ?thesis using Cons.IH Cons.prems(2) by simp
  qed
qed

lemma op_calls_append [simp]: "op_calls (xs @ ys) = op_calls xs @ op_calls ys"
  by (induction xs rule: op_calls.induct) auto

lemma call_plain_fsa:
  "cur_state (call_plain f a s) = cur_state s" "cur_cnt (call_plain f a s) = cur_cnt s"
  "operator_func (call_plain f a s) = operator_func s"
  "op_calls (calls (call_plain f a s)) = op_calls (calls s)"
  by (auto simp: call_plain_def change_mode_def Let_def)

lemma keys_loop_no_replay:
  assumes "\<forall>r \<in> set rs. ke_keysym ke = k_sym r \<and> EQUALMODS (k_mod r) (uint (ke_state ke)) \<longrightarrow>
             k_func r \<noteq> Some Replay"
  shows "\<exists>s'. keys_loop rs ke s = Some s' \<and> cur_state s' = cur_state s \<and> cur_cnt s' = cur_cnt s
     \<and> operator_func s' = operator_func s \<and> op_calls (calls s') = op_calls (calls s)"
  using assms
proof (induction rs arbitrary: s)
  case Nil then show ?case by simp
next
  case (Cons x rs)
  then have rest: "\<forall>r \<in> set rs. ke_keysym ke = k_sym r \<and> EQUALMODS (k_mod r) (uint (ke_state ke)) \<longrightarrow>
             k_func r \<noteq> Some Replay" by simp
  show ?case
  proof (cases "ke_keysym ke = k_sym x \<and> EQUALMODS (k_mod x) (uint (ke_state ke))
         \<and> k_func x \<noteq> None \<and> k_mode x = cur_mode s")
    case True
    then obtain f where f: "k_func x = Some f" by auto
    with True Cons.prems have nr: "f \<noteq> Replay" by auto
    let ?s1 = "save_last_cmd (k_func x) (k_arg x) (call_plain f (k_arg x) s)"
    have step: "keys_loop (x # rs) ke s = keys_loop rs ke ?s1"
      using True f nr by (simp add: call_cmd_def)
    from Cons.IH [OF rest, of ?s1] obtain s' where
      "keys_loop rs ke ?s1 = Some s'" "cur_state s' = cur_state ?s1" "cur_cnt s' = cur_cnt ?s1"
      "operator_func s' = operator_func ?s1" "op_calls (calls s') = op_calls (calls ?s1)"
      by blast
    with step show ?thesis by (simp add: save_last_cmd_def call_plain_fsa)
  next
    case False
    with Cons.IH [OF rest, of s] show ?thesis by auto
  qed
qed

lemma count_key_range:
  assumes "count_key km ke"
  shows "1 \<le> uint (ke_keysym ke - XK_0)" and "uint (ke_keysym ke - XK_0) \<le> 9"
proof -
  from assms have a: "0x31 \<le> ke_keysym ke" "ke_keysym ke \<le> 0x39"
    by (simp_all add: count_key_def XK_1_def XK_9_def)
  then have "0x31 \<le> uint (ke_keysym ke)" "uint (ke_keysym ke) \<le> 0x39"
    by (simp_all add: word_le_def)
  moreover have "uint (ke_keysym ke - 0x30) = uint (ke_keysym ke) - 0x30"
    using a by (simp add: uint_sub_if' word_le_def)
  ultimately show "1 \<le> uint (ke_keysym ke - XK_0)" and "uint (ke_keysym ke - XK_0) \<le> 9"
    by (simp_all add: XK_0_def)
qed

lemma key_press_operator:
  assumes "cur_state s = OPERATOR_STATE" and "find (operator_match ke s) (operators km) = Some r"
    and "no_replay_binding km ke"
  shows "\<exists>s1. key_press_event km ke s = Some s1 \<and> cur_state s1 = COUNT_STATE
     \<and> cur_cnt s1 = cur_cnt s \<and> operator_func s1 = Some (o_func r)
     \<and> op_calls (calls s1) = op_calls (calls s)"
proof -
  let ?s1 = "s\<lparr>operator_func := Some (o_func r), cur_state := COUNT_STATE\<rparr>"
  from keys_loop_no_replay [of "keys km" ke ?s1] assms(3) obtain s' where
    "keys_loop (keys km) ke ?s1 = Some s'" "cur_state s' = COUNT_STATE" "cur_cnt s' = cur_cnt s"
    "operator_func s' = Some (o_func r)" "op_calls (calls s') = op_calls (calls s)"
    by (auto simp: no_replay_binding_def)
  with assms(1,2) show ?thesis
    by (simp add: key_press_event_def operators_loop_find)
qed

lemma key_press_count:
  assumes "cur_state s = COUNT_STATE" and "count_key km ke" and "no_replay_binding km ke"
  shows "\<exists>s2. key_press_event km ke s = Some s2 \<and> cur_state s2 = MOTION_STATE
     \<and> cur_cnt s2 = uint (ke_keysym ke - XK_0) \<and> operator_func s2 = operator_func s
     \<and> op_calls (calls s2) = op_calls (calls s)"
proof -
  let ?s1 = "s\<lparr>cur_cnt := uint (ke_keysym ke - XK_0), cur_state := MOTION_STATE\<rparr>"
  from keys_loop_no_replay [of "keys km" ke ?s1] assms(3) obtain s' where
    "keys_loop (keys km) ke ?s1 = Some s'" "cur_state s' = MOTION_STATE"
    "cur_cnt s' = uint (ke_keysym ke - XK_0)"
    "operator_func s' = operator_func s" "op_calls (calls s') = op_calls (calls s)"
    by (auto simp: no_replay_binding_def)
  with assms(1,2) show ?thesis
    by (simp add: key_press_event_def count_key_def)
qed

lemma key_press_motion:
  assumes "cur_state s = MOTION_STATE \<or> (cur_state s = COUNT_STATE \<and> \<not> count_key km ke)"
    and "filter (motion_match ke) (motions km) = [m]" and "operator_func s = Some f"
    and "no_replay_binding km ke"
  shows "\<exists>s3. key_press_event km ke s = Some s3 \<and> cur_state s3 = OPERATOR_STATE
     \<and> cur_cnt s3 = 1
     \<and> op_calls (calls s3) = op_calls (calls s) @ [(f, m_type m, cur_cnt s)]"
proof -
  from motions_loop_single [OF assms(2,3)] obtain s1 where
    s1: "motions_loop (motions km) ke s = Some s1" "cur_state s1 = OPERATOR_STATE"
      "cur_cnt s1 = 1" "calls s1 = calls s @ [Op_call f (m_type m) (cur_cnt s)]"
    by blast
  from keys_loop_no_replay [of "keys km" ke s1] assms(4) obtain s' where
    s': "keys_loop (keys km) ke s1 = Some s'" "cur_state s' = cur_state s1"
      "cur_cnt s' = cur_cnt s1" "op_calls (calls s') = op_calls (calls s1)"
    by (auto simp: no_replay_binding_def)
  have "key_press_event km ke s = Some s'"
    using assms(1) s1(1) s'(1) by (auto simp: key_press_event_def count_key_def)
  with s1 s' show ?thesis by simp
qed

text \<open>Whenever the automaton is not in the MOTION state its count is 1: this holds
  at start-up and every key press keeps it, whatever the tables are.\<close>

lemma call_cmd_fsa:
  "call_cmd f a s = Some s' \<Longrightarrow> cur_state s' = cur_state s \<and> cur_cnt s' = cur_cnt s"
  by (auto simp: call_cmd_def replay_def call_operator_def call_plain_fsa
      split: if_splits option.splits)

lemma keys_loop_fsa:
  "keys_loop rs ke s = Some s' \<Longrightarrow> cur_state s' = cur_state s \<and> cur_cnt s' = cur_cnt s"
proof (induction rs arbitrary: s)
  case Nil then show ?case by simp
next
  case (Cons x rs)
  show ?case
  proof (cases "ke_keysym ke = k_sym x \<and> EQUALMODS (k_mod x) (uint (ke_state ke))
         \<and> k_func x \<noteq> None \<and> k_mode x = cur_mode s")
    case True
    then obtain f where f: "k_func x = Some f" by auto
    with True Cons.prems obtain s1 where s1: "call_cmd f (k_arg x) s = Some s1"
      "keys_loop rs ke (if f \<noteq> Replay then save_last_cmd (k_func x) (k_arg x) s1 else s1) = Some s'"
      by (auto simp: bind_eq_Some_conv)
    from Cons.IH [OF s1(2)] call_cmd_fsa [OF s1(1)] show ?thesis
      by (auto simp: save_last_cmd_def split: if_splits)
  next
    case False
    with Cons.prems have "keys_loop rs ke s = Some s'" by auto
    from Cons.IH [OF this] show ?thesis .
  qed
qed

lemma motions_loop_fsa:
  "motions_loop rs ke s = Some s' \<Longrightarrow>
   (cur_state s' = cur_state s \<and> cur_cnt s' = cur_cnt s)
   \<or> (cur_state s' = OPERATOR_STATE \<and> cur_cnt s' = 1)"
proof (induction rs arbitrary: s)
  case Nil then show ?case by simp
next
  case (Cons x rs)
  show ?case
  proof (cases "motion_match ke x")
    case True
    with Cons.prems obtain s1 where
      "motions_loop rs ke ((save_last_ocm (operator_func s1) (m_type x) (cur_cnt s1) s1)
          \<lparr>cur_state := OPERATOR_STATE, cur_cnt := 1\<rparr>) = Some s'"
      by (auto simp: motion_match_def bind_eq_Some_conv)
    from Cons.IH [OF this] show ?thesis by auto
  next
    case False
    with Cons.prems have "motions_loop rs ke s = Some s'" by (auto simp: motion_match_def)
    from Cons.IH [OF this] show ?thesis .
  qed
qed

lemma key_press_event_count_invariant:
  assumes "cur_state s \<noteq> MOTION_STATE \<longrightarrow> cur_cnt s = 1"
    and "key_press_event km ke s = Some s'"
  shows "cur_state s' \<noteq> MOTION_STATE \<longrightarrow> cur_cnt s' = 1"
proof -
  from assms(2) obtain s1 where s1: "keys_loop (keys km) ke s1 = Some s'"
    and c: "(case cur_state s of
              OPERATOR_STATE \<Rightarrow> Some (operators_loop (operators km) ke s)
            | COUNT_STATE \<Rightarrow>
                if EQUALMODS (COUNT_MOD km) (uint (ke_state ke)) \<and> XK_1 \<le> ke_keysym ke
                   \<and> ke_keysym ke \<le> XK_9
                then Some (s\<lparr>cur_cnt := uint (ke_keysym ke - XK_0), cur_state := MOTION_STATE\<rparr>)
                else motions_loop (motions km) ke s
            | MOTION_STATE \<Rightarrow> motions_loop (motions km) ke s) = Some s1"
    by (auto simp: key_press_event_def bind_eq_Some_conv)
  have "cur_state s1 \<noteq> MOTION_STATE \<longrightarrow> cur_cnt s1 = 1"
  proof (cases "cur_state s")
    case OPERATOR_STATE
    with c assms(1) show ?thesis
      by (auto simp: operators_loop_find split: option.splits)
  next
    case COUNT_STATE
    with c assms(1) motions_loop_fsa [of "motions km" ke s s1] show ?thesis
      by (auto split: if_splits)
  next
    case MOTION_STATE
    with c motions_loop_fsa [of "motions km" ke s s1] show ?thesis by auto
  qed
  with keys_loop_fsa [OF s1] show ?thesis by simp
qed

text \<open>
  C3 says that every key sequence operator, optional count digit, motion invokes the
  stored operator exactly once and no proper prefix invokes one.  The source gives a
  count key precedence over a motion in the COUNT state, calls the operator for
  every row of \<open>motions\<close> that matches, and scans \<open>keys\<close> on every key press,
  where \<open>replay\<close> calls an operator again.  As amended: from the OPERATOR state
  with count 1, if the first key matches a row of \<open>operators\<close>, exactly one row of
  \<open>motions\<close> matches the motion key, and neither of the two keys is bound to
  \<open>replay\<close>, then the key press of the operator returns and calls no operator;
  after it, for every count key that is not bound to \<open>replay\<close>, the key presses
  digit, motion return, the digit calls no operator, and the motion calls the
  operator of the first matching row once, with the type of the motion and the
  digit (1 to 9) as count; and when the motion key is not a count key, the key press
  of the motion right after the operator calls that operator once with count 1.
  In both cases the automaton ends in the OPERATOR state with count 1.
\<close>

theorem key_sequence_invokes_once:
  assumes "cur_state s = OPERATOR_STATE" and "cur_cnt s = 1"
    and "find (operator_match k1 s) (operators km) = Some r"
    and "filter (motion_match k3) (motions km) = [m]"
    and "no_replay_binding km k1" and "no_replay_binding km k3"
  shows "\<exists>s1. key_press_event km k1 s = Some s1
     \<and> op_calls (calls s1) = op_calls (calls s)
     \<and> (\<forall>kd. count_key km kd \<and> no_replay_binding km kd \<longrightarrow>
          (\<exists>s2 s3. key_press_event km kd s1 = Some s2
           \<and> op_calls (calls s2) = op_calls (calls s)
           \<and> key_press_event km k3 s2 = Some s3
           \<and> op_calls (calls s3)
               = op_calls (calls s) @ [(o_func r, m_type m, uint (ke_keysym kd - XK_0))]
           \<and> 1 \<le> uint (ke_keysym kd - XK_0) \<and> uint (ke_keysym kd - XK_0) \<le> 9
           \<and> cur_state s3 = OPERATOR_STATE \<and> cur_cnt s3 = 1))
     \<and> (\<not> count_key km k3 \<longrightarrow>
          (\<exists>s3. key_press_event km k3 s1 = Some s3
           \<and> op_calls (calls s3) = op_calls (calls s) @ [(o_func r, m_type m, 1)]
           \<and> cur_state s3 = OPERATOR_STATE \<and> cur_cnt s3 = 1))"
proof -
  from key_press_operator [OF assms(1,3,5)] obtain s1 where
    s1: "key_press_event km k1 s = Some s1" "cur_state s1 = COUNT_STATE" "cur_cnt s1 = 1"
      "operator_func s1 = Some (o_func r)" "op_calls (calls s1) = op_calls (calls s)"
    using assms(2) by auto
  have long: "\<exists>s2 s3. key_press_event km kd s1 = Some s2
           \<and> op_calls (calls s2) = op_calls (calls s)
           \<and> key_press_event km k3 s2 = Some s3
           \<and> op_calls (calls s3)
               = op_calls (calls s) @ [(o_func r, m_type m, uint (ke_keysym kd - XK_0))]
           \<and> 1 \<le> uint (ke_keysym kd - XK_0) \<and> uint (ke_keysym kd - XK_0) \<le> 9
           \<and> cur_state s3 = OPERATOR_STATE \<and> cur_cnt s3 = 1"
    if kd: "count_key km kd \<and> no_replay_binding km kd" for kd
  proof -
    from kd have ck: "count_key km kd" and nr: "no_replay_binding km kd" by simp_all
    from key_press_count [OF s1(2) ck nr] obtain s2 where
      s2: "key_press_event km kd s1 = Some s2" "cur_state s2 = MOTION_STATE"
        "cur_cnt s2 = uint (ke_keysym kd - XK_0)" "operator_func s2 = Some (o_func r)"
        "op_calls (calls s2) = op_calls (calls s)"
      using s1(4,5) by auto
    from key_press_motion [of s2 km k3 m "o_func r"] s2 assms(4,6) obtain s3 where
      s3: "key_press_event km k3 s2 = Some s3" "cur_state s3 = OPERATOR_STATE" "cur_cnt s3 = 1"
        "op_calls (calls s3)
           = op_calls (calls s) @ [(o_func r, m_type m, uint (ke_keysym kd - XK_0))]"
      by auto
    from s2 s3 count_key_range [OF ck] show ?thesis by blast
  qed
  have short: "\<exists>s3. key_press_event km k3 s1 = Some s3
           \<and> op_calls (calls s3) = op_calls (calls s) @ [(o_func r, m_type m, 1)]
           \<and> cur_state s3 = OPERATOR_STATE \<and> cur_cnt s3 = 1" if "\<not> count_key km k3"
    using key_press_motion [of s1 km k3 m "o_func r"] s1 assms(4,6) that by auto
  from s1(1,5) long short show ?thesis by blast
qed

theorem key_sequence_invokes_once_witness:
  "count_key ex_km (ex_key 0x33) \<and> no_replay_binding ex_km (ex_key 0x33)
   \<and> \<not> count_key ex_km (ex_key 0x63)
   \<and> (\<exists>s1. key_press_event ex_km (ex_key 0x71) ex_fsa = Some s1
     \<and> op_calls (calls s1) = []
     \<and> (\<exists>s2 s3. key_press_event ex_km (ex_key 0x33) s1 = Some s2
           \<and> op_calls (calls s2) = []
           \<and> key_press_event ex_km (ex_key 0x63) s2 = Some s3
           \<and> op_calls (calls s3) = [(Op_kill, CLIENT, 3)]
           \<and> cur_state s3 = OPERATOR_STATE \<and> cur_cnt s3 = 1)
     \<and> (\<exists>s3. key_press_event ex_km (ex_key 0x63) s1 = Some s3
           \<and> op_calls (calls s3) = [(Op_kill, CLIENT, 1)]
           \<and> cur_state s3 = OPERATOR_STATE \<and> cur_cnt s3 = 1))"
proof -
  have kd: "count_key ex_km (ex_key 0x33) \<and> no_replay_binding ex_km (ex_key 0x33)"
    and k3: "\<not> count_key ex_km (ex_key 0x63)"
    and c3: "uint (ke_keysym (ex_key 0x33) - XK_0) = 3"
    by (simp_all add: ex_km_def ex_key_def count_key_def no_replay_binding_def EQUALMODS_def
          CLEANMASK_def numlockmask_def XCB_MOD_MASK_LOCK_def XK_0_def XK_1_def XK_9_def)
  have "\<exists>s1. key_press_event ex_km (ex_key 0x71) ex_fsa = Some s1
     \<and> op_calls (calls s1) = op_calls (calls ex_fsa)
     \<and> (\<forall>kd. count_key ex_km kd \<and> no_replay_binding ex_km kd \<longrightarrow>
          (\<exists>s2 s3. key_press_event ex_km kd s1 = Some s2
           \<and> op_calls (calls s2) = op_calls (calls ex_fsa)
           \<and> key_press_event ex_km (ex_key 0x63) s2 = Some s3
           \<and> op_calls (calls s3)
               = op_calls (calls ex_fsa) @ [(Op_kill, CLIENT, uint (ke_keysym kd - XK_0))]
           \<and> 1 \<le> uint (ke_keysym kd - XK_0) \<and> uint (ke_keysym kd - XK_0) \<le> 9
           \<and> cur_state s3 = OPERATOR_STATE \<and> cur_cnt s3 = 1))
     \<and> (\<not> count_key ex_km (ex_key 0x63) \<longrightarrow>
          (\<exists>s3. key_press_event ex_km (ex_key 0x63) s1 = Some s3
           \<and> op_calls (calls s3) = op_calls (calls ex_fsa) @ [(Op_kill, CLIENT, 1)]
           \<and> cur_state s3 = OPERATOR_STATE \<and> cur_cnt s3 = 1))"
  proof -
    have h: "cur_state ex_fsa = OPERATOR_STATE" "cur_cnt ex_fsa = 1"
      "find (operator_match (ex_key 0x71) ex_fsa) (operators ex_km)
         = Some \<lparr>o_mod = 64, o_sym = 0x71, o_mode = 0, o_func = Op_kill\<rparr>"
      "filter (motion_match (ex_key 0x63)) (motions ex_km)
         = [\<lparr>m_mod = 64, m_sym = 0x63, m_type = CLIENT\<rparr>]"
      "no_replay_binding ex_km (ex_key 0x71)" "no_replay_binding ex_km (ex_key 0x63)"
      by (simp_all add: ex_km_def ex_key_def ex_fsa_def operator_match_def motion_match_def
            no_replay_binding_def EQUALMODS_def CLEANMASK_def numlockmask_def
            XCB_MOD_MASK_LOCK_def)
    from key_sequence_invokes_once [OF h] show ?thesis by simp
  qed
  then obtain s1 where s1: "key_press_event ex_km (ex_key 0x71) ex_fsa = Some s1"
      "op_calls (calls s1) = op_calls (calls ex_fsa)"
    and long: "\<forall>kd. count_key ex_km kd \<and> no_replay_binding ex_km kd \<longrightarrow>
          (\<exists>s2 s3. key_press_event ex_km kd s1 = Some s2
           \<and> op_calls (calls s2) = op_calls (calls ex_fsa)
           \<and> key_press_event ex_km (ex_key 0x63) s2 = Some s3
           \<and> op_calls (calls s3)
               = op_calls (calls ex_fsa) @ [(Op_kill, CLIENT, uint (ke_keysym kd - XK_0))]
           \<and> 1 \<le> uint (ke_keysym kd - XK_0) \<and> uint (ke_keysym kd - XK_0) \<le> 9
           \<and> cur_state s3 = OPERATOR_STATE \<and> cur_cnt s3 = 1)"
    and short: "\<not> count_key ex_km (ex_key 0x63) \<longrightarrow>
          (\<exists>s3. key_press_event ex_km (ex_key 0x63) s1 = Some s3
           \<and> op_calls (calls s3) = op_calls (calls ex_fsa) @ [(Op_kill, CLIENT, 1)]
           \<and> cur_state s3 = OPERATOR_STATE \<and> cur_cnt s3 = 1)"
    by blast
  have e: "op_calls (calls ex_fsa) = []" by (simp add: ex_fsa_def)
  from long [rule_format, OF kd] c3 e obtain s2 s3 where
    "key_press_event ex_km (ex_key 0x33) s1 = Some s2" "op_calls (calls s2) = []"
    "key_press_event ex_km (ex_key 0x63) s2 = Some s3"
    "op_calls (calls s3) = [(Op_kill, CLIENT, 3)]"
    "cur_state s3 = OPERATOR_STATE" "cur_cnt s3 = 1"
    by auto
  moreover from short k3 e obtain s3' where
    "key_press_event ex_km (ex_key 0x63) s1 = Some s3'"
    "op_calls (calls s3') = [(Op_kill, CLIENT, 1)]"
    "cur_state s3' = OPERATOR_STATE" "cur_cnt s3' = 1"
    by auto
  ultimately show ?thesis using s1 e kd k3 by auto
qed

text \<open>
  The cases that the amended statement excludes.  With \<open>replay\<close> bound to the
  motion key \<open>c\<close>, the sequence \<open>q c\<close> calls the operator twice.  With the motion
  on the key \<open>3\<close>, the sequence \<open>q 3\<close> calls no operator and leaves the automaton
  in the MOTION state with count 3.  With two rows for \<open>c\<close> in \<open>motions\<close>,
  \<open>q c\<close> calls the operator once for each.
\<close>

theorem key_sequence_counterexample:
  "op_calls_after (key_press_event ex_km_replay (ex_key 0x71) ex_fsa
      \<bind> key_press_event ex_km_replay (ex_key 0x63))
     = Some [(Op_kill, CLIENT, 1), (Op_kill, CLIENT, 1)]
   \<and> op_calls_after (key_press_event ex_km_digit (ex_key 0x71) ex_fsa
      \<bind> key_press_event ex_km_digit (ex_key 0x33)) = Some []
   \<and> state_after (key_press_event ex_km_digit (ex_key 0x71) ex_fsa
      \<bind> key_press_event ex_km_digit (ex_key 0x33)) = Some (MOTION_STATE, 3)
   \<and> op_calls_after (key_press_event ex_km_twice (ex_key 0x71) ex_fsa
      \<bind> key_press_event ex_km_twice (ex_key 0x63))
     = Some [(Op_kill, CLIENT, 1), (Op_kill, WORKSPACE, 1)]"
  by (simp add: fsa_defs ex_fsa_defs)

end
